theory Spec2Isabelle
  imports Main "HOL-Library.Word" "HOL-Library.Sublist"
begin

unbundle bit_operations_syntax

section \<open>JavaScript strings and buffers\<close>

text \<open>
  A JavaScript string is a sequence of UTF-16 code units; a Node \<open>Buffer\<close> is a
  sequence of bytes. String literals of the source are written \<open>js ''...''\<close>.
\<close>

type_synonym jschar = "16 word"
type_synonym jsstring = "jschar list"
type_synonym byte = "8 word"
type_synonym buffer = "byte list"

definition js :: "string \<Rightarrow> jsstring" where
  "js s = map of_char s"

abbreviation LF :: jschar where "LF \<equiv> 0x0A"
abbreviation CR :: jschar where "CR \<equiv> 0x0D"

text \<open>\<open>String.prototype.startsWith\<close> and \<open>endsWith\<close>.\<close>

fun startsWith :: "jsstring \<Rightarrow> jsstring \<Rightarrow> bool" where
  "startsWith s [] = True"
| "startsWith [] (p # ps) = False"
| "startsWith (c # cs) (p # ps) = (c = p \<and> startsWith cs ps)"

definition endsWith :: "jsstring \<Rightarrow> jsstring \<Rightarrow> bool" where
  "endsWith s suf =
     (length suf \<le> length s \<and> drop (length s - length suf) s = suf)"

text \<open>
  \<open>String.prototype.indexOf\<close>: the index of the first occurrence of the
  search string, or \<open>-1\<close>.
\<close>

fun indexOf_from :: "int \<Rightarrow> jsstring \<Rightarrow> jsstring \<Rightarrow> int" where
  "indexOf_from i [] sub = (if sub = [] then i else -1)"
| "indexOf_from i (c # cs) sub =
     (if startsWith (c # cs) sub then i else indexOf_from (i + 1) cs sub)"

definition indexOf :: "jsstring \<Rightarrow> jsstring \<Rightarrow> int" where
  "indexOf s sub = indexOf_from 0 s sub"

text \<open>
  \<open>String.prototype.replace\<close> with a string pattern: only the first
  occurrence is replaced. (The replacement strings of the source contain no
  \<open>$\<close>, so no replacement pattern is expanded.)
\<close>

fun replace :: "jsstring \<Rightarrow> jsstring \<Rightarrow> jsstring \<Rightarrow> jsstring" where
  "replace [] pat rep = (if pat = [] then rep else [])"
| "replace (c # cs) pat rep =
     (if startsWith (c # cs) pat then rep @ drop (length pat) (c # cs)
      else c # replace cs pat rep)"

section \<open>Node's \<open>path\<close> module (POSIX)\<close>

abbreviation SLASH :: jschar where "SLASH \<equiv> 0x2F"
abbreviation DOT :: jschar where "DOT \<equiv> 0x2E"

definition path_sep :: jsstring where
  "path_sep = [SLASH]"

text \<open>
  \<open>path.basename(path)\<close>: trailing separators are dropped, then the part after
  the last separator is returned.
\<close>

definition basename :: "jsstring \<Rightarrow> jsstring" where
  "basename p = rev (takeWhile (\<lambda>c. c \<noteq> SLASH) (dropWhile (\<lambda>c. c = SLASH) (rev p)))"

text \<open>
  \<open>path.extname(path)\<close> scans the path from its last character to its first and
  keeps five variables; \<open>-1\<close> means "not seen yet".
\<close>

record extname_state =
  startDot :: int
  startPart :: int
  end_pos :: int
  matchedSlash :: bool
  preDotState :: int

text \<open>
  One iteration of the loop at index \<open>i\<close> with code unit \<open>code\<close>; the result is
  \<open>Inl\<close> when the loop breaks and \<open>Inr\<close> when it continues.
\<close>

definition extname_step :: "int \<Rightarrow> jschar \<Rightarrow> extname_state \<Rightarrow> extname_state + extname_state" where
  "extname_step i code st =
     (if code = SLASH then
        (if \<not> matchedSlash st then Inl (st\<lparr>startPart := i + 1\<rparr>) else Inr st)
      else
        (let st1 = (if end_pos st = -1 then st\<lparr>matchedSlash := False, end_pos := i + 1\<rparr> else st)
         in if code = DOT then
              (if startDot st1 = -1 then Inr (st1\<lparr>startDot := i\<rparr>)
               else if preDotState st1 \<noteq> 1 then Inr (st1\<lparr>preDotState := 1\<rparr>)
               else Inr st1)
            else if startDot st1 \<noteq> -1 then Inr (st1\<lparr>preDotState := -1\<rparr>)
            else Inr st1))"

text \<open>The loop, over the reversed path: the head of the list is index \<open>i\<close>.\<close>

fun extname_loop :: "jsstring \<Rightarrow> extname_state \<Rightarrow> extname_state" where
  "extname_loop [] st = st"
| "extname_loop (code # front) st =
     (case extname_step (int (length front)) code st of
        Inl st' \<Rightarrow> st'
      | Inr st' \<Rightarrow> extname_loop front st')"

definition slice :: "jsstring \<Rightarrow> int \<Rightarrow> int \<Rightarrow> jsstring" where
  "slice s from to = take (nat to - nat from) (drop (nat from) s)"

definition extname :: "jsstring \<Rightarrow> jsstring" where
  "extname p =
     (let st = extname_loop (rev p)
                 \<lparr>startDot = -1, startPart = 0, end_pos = -1, matchedSlash = True, preDotState = 0\<rparr>
      in if startDot st = -1 \<or> end_pos st = -1 \<or> preDotState st = 0 \<or>
            (preDotState st = 1 \<and> startDot st = end_pos st - 1 \<and> startDot st = startPart st + 1)
         then []
         else slice p (startDot st) (end_pos st))"

section \<open>Text encodings of Node buffers\<close>

subsection \<open>UTF-8\<close>

text \<open>
  Encoding a string as \<open>'utf8'\<close>: a surrogate pair becomes one four-byte
  sequence, and a surrogate that has no partner is written as U+FFFD
  (\<open>EF BF BD\<close>). Bytes are computed as natural numbers and cast at the end.
\<close>

definition is_high_surrogate :: "jschar \<Rightarrow> bool" where
  "is_high_surrogate c = (0xD800 \<le> unat c \<and> unat c \<le> 0xDBFF)"

definition is_low_surrogate :: "jschar \<Rightarrow> bool" where
  "is_low_surrogate c = (0xDC00 \<le> unat c \<and> unat c \<le> 0xDFFF)"

definition utf8_of_codepoint :: "nat \<Rightarrow> nat list" where
  "utf8_of_codepoint cp =
     (if cp < 0x80 then [cp]
      else if cp < 0x800 then [0xC0 + cp div 64, 0x80 + cp mod 64]
      else if cp < 0x10000 then
        [0xE0 + cp div 4096, 0x80 + (cp div 64) mod 64, 0x80 + cp mod 64]
      else
        [0xF0 + cp div 262144, 0x80 + (cp div 4096) mod 64,
         0x80 + (cp div 64) mod 64, 0x80 + cp mod 64])"

definition codepoint_of_pair :: "jschar \<Rightarrow> jschar \<Rightarrow> nat" where
  "codepoint_of_pair hi lo = 0x10000 + (unat hi - 0xD800) * 1024 + (unat lo - 0xDC00)"

fun utf8_units :: "jsstring \<Rightarrow> nat list" where
  "utf8_units [] = []"
| "utf8_units (c # cs) =
     (if is_high_surrogate c \<and> cs \<noteq> [] \<and> is_low_surrogate (hd cs)
      then utf8_of_codepoint (codepoint_of_pair c (hd cs)) @ utf8_units (tl cs)
      else if is_high_surrogate c \<or> is_low_surrogate c
      then [0xEF, 0xBF, 0xBD] @ utf8_units cs
      else utf8_of_codepoint (unat c) @ utf8_units cs)"

definition utf8_encode :: "jsstring \<Rightarrow> buffer" where
  "utf8_encode s = map of_nat (utf8_units s)"

text \<open>
  Decoding a buffer as \<open>'utf8'\<close> never fails: every maximal ill-formed part
  is replaced by U+FFFD. The decoder keeps the number of continuation bytes
  still needed, the code point collected so far and the bounds for the next
  byte; a byte outside the bounds ends the sequence with U+FFFD and is read
  again as the start of a new one.
\<close>

record utf8_decoder =
  needed :: nat
  codepoint :: nat
  lower :: nat
  upper :: nat

definition utf8_start :: utf8_decoder where
  "utf8_start = \<lparr>needed = 0, codepoint = 0, lower = 0x80, upper = 0xBF\<rparr>"

definition utf16_of_codepoint :: "nat \<Rightarrow> jsstring" where
  "utf16_of_codepoint cp =
     (if cp < 0x10000 then [of_nat cp]
      else [of_nat (0xD800 + (cp - 0x10000) div 1024), of_nat (0xDC00 + (cp - 0x10000) mod 1024)])"

function utf8_run :: "utf8_decoder \<Rightarrow> nat list \<Rightarrow> jsstring" where
  "utf8_run st [] = (if needed st = 0 then [] else [0xFFFD])"
| "utf8_run st (b # bs) =
     (if needed st = 0 then
        (if b < 0x80 then of_nat b # utf8_run utf8_start bs
         else if 0xC2 \<le> b \<and> b \<le> 0xDF then
           utf8_run \<lparr>needed = 1, codepoint = b - 0xC0, lower = 0x80, upper = 0xBF\<rparr> bs
         else if 0xE0 \<le> b \<and> b \<le> 0xEF then
           utf8_run \<lparr>needed = 2, codepoint = b - 0xE0,
                     lower = (if b = 0xE0 then 0xA0 else 0x80),
                     upper = (if b = 0xED then 0x9F else 0xBF)\<rparr> bs
         else if 0xF0 \<le> b \<and> b \<le> 0xF4 then
           utf8_run \<lparr>needed = 3, codepoint = b - 0xF0,
                     lower = (if b = 0xF0 then 0x90 else 0x80),
                     upper = (if b = 0xF4 then 0x8F else 0xBF)\<rparr> bs
         else 0xFFFD # utf8_run utf8_start bs)
      else if lower st \<le> b \<and> b \<le> upper st then
        (if needed st = 1
         then utf16_of_codepoint (codepoint st * 64 + (b - 0x80)) @ utf8_run utf8_start bs
         else utf8_run \<lparr>needed = needed st - 1, codepoint = codepoint st * 64 + (b - 0x80),
                         lower = 0x80, upper = 0xBF\<rparr> bs)
      else 0xFFFD # utf8_run utf8_start (b # bs))"
  by pat_completeness auto
termination
  by (relation "measure (\<lambda>(st, bs). 2 * length bs + (if needed st = 0 then 0 else 1))")
     (auto simp: utf8_start_def)

definition utf8_decode :: "buffer \<Rightarrow> jsstring" where
  "utf8_decode buf = utf8_run utf8_start (map unat buf)"

subsection \<open>Base64\<close>

definition base64_char :: "nat \<Rightarrow> jschar" where
  "base64_char i =
     (if i < 26 then of_nat (65 + i)
      else if i < 52 then of_nat (97 + (i - 26))
      else if i < 62 then of_nat (48 + (i - 52))
      else if i = 62 then 0x2B else 0x2F)"

abbreviation EQUALS :: jschar where "EQUALS \<equiv> 0x3D"

fun base64_groups :: "nat list \<Rightarrow> jsstring" where
  "base64_groups [] = []"
| "base64_groups [a] =
     [base64_char (a div 4), base64_char ((a mod 4) * 16), EQUALS, EQUALS]"
| "base64_groups [a, b] =
     [base64_char (a div 4), base64_char ((a mod 4) * 16 + b div 16),
      base64_char ((b mod 16) * 4), EQUALS]"
| "base64_groups (a # b # c # rest) =
     [base64_char (a div 4), base64_char ((a mod 4) * 16 + b div 16),
      base64_char ((b mod 16) * 4 + c div 64), base64_char (c mod 64)] @ base64_groups rest"

definition base64_encode :: "buffer \<Rightarrow> jsstring" where
  "base64_encode buf = base64_groups (map unat buf)"

text \<open>
  Node's decoder is lenient: it reads the low byte of each code unit, accepts
  the URL-safe alphabet as well, skips every character outside the alphabet
  and stops at the first \<open>=\<close>. \<open>unbase64\<close> is 64 for a character outside
  the alphabet.
\<close>

definition low_byte :: "jschar \<Rightarrow> nat" where
  "low_byte c = unat c mod 256"

definition unbase64 :: "jschar \<Rightarrow> nat" where
  "unbase64 c =
     (let u = low_byte c in
      if 65 \<le> u \<and> u \<le> 90 then u - 65
      else if 97 \<le> u \<and> u \<le> 122 then u - 97 + 26
      else if 48 \<le> u \<and> u \<le> 57 then u - 48 + 52
      else if u = 0x2B \<or> u = 0x2D then 62
      else if u = 0x2F \<or> u = 0x5F then 63
      else 64)"

fun unbase64_groups :: "nat list \<Rightarrow> nat list" where
  "unbase64_groups (a # b # c # d # rest) =
     [a * 4 + b div 16, (b mod 16) * 16 + c div 4, (c mod 4) * 64 + d] @ unbase64_groups rest"
| "unbase64_groups [a, b, c] = [a * 4 + b div 16, (b mod 16) * 16 + c div 4]"
| "unbase64_groups [a, b] = [a * 4 + b div 16]"
| "unbase64_groups _ = []"

definition base64_decode :: "jsstring \<Rightarrow> buffer" where
  "base64_decode s =
     map of_nat (unbase64_groups
       (filter (\<lambda>v. v < 64) (map unbase64 (takeWhile (\<lambda>c. low_byte c \<noteq> 0x3D) s))))"

subsection \<open>Hex\<close>

text \<open>
  \<open>Buffer.from(key, 'hex')\<close> reads two hex digits per byte and stops at the
  first pair that is not hexadecimal.
\<close>

definition hex_digit :: "jschar \<Rightarrow> nat option" where
  "hex_digit c =
     (let u = unat c in
      if 48 \<le> u \<and> u \<le> 57 then Some (u - 48)
      else if 97 \<le> u \<and> u \<le> 102 then Some (u - 87)
      else if 65 \<le> u \<and> u \<le> 70 then Some (u - 55)
      else None)"

fun hex_decode :: "jsstring \<Rightarrow> buffer" where
  "hex_decode (h # l # rest) =
     (case (hex_digit h, hex_digit l) of
        (Some x, Some y) \<Rightarrow> of_nat (x * 16 + y) # hex_decode rest
      | _ \<Rightarrow> [])"
| "hex_decode _ = []"

section \<open>Errors\<close>

text \<open>Every exception the modelled code can raise, as a value.\<close>

datatype error =
    ENOENT | EISDIR | ENOTDIR
  | UnsupportedEncoding jsstring
  | InvalidKeyLength | InvalidIV | WrongFinalBlockLength | BadDecrypt
  | URIError

section \<open>Node's \<open>crypto\<close> module: \<open>aes-128-cbc\<close>\<close>

text \<open>
  The module is a record: the block cipher that \<open>aes-128-cbc\<close> names, under
  a key, and the state of the random generator \<open>crypto.randomBytes\<close>. The
  functions below take the module as an argument; \<open>aes128_crypto\<close> is the
  module with the cipher AES-128.
\<close>

record crypto =
  block_encrypt :: "buffer \<Rightarrow> buffer \<Rightarrow> buffer"
  block_decrypt :: "buffer \<Rightarrow> buffer \<Rightarrow> buffer"
  randomBytes :: "nat \<Rightarrow> buffer"

definition xor_bytes :: "buffer \<Rightarrow> buffer \<Rightarrow> buffer" where
  "xor_bytes a b = map2 (XOR) a b"

subsection \<open>The block cipher AES-128\<close>

text \<open>
  The cipher of FIPS 197 for a key of 16 bytes, on a state of 16 bytes in the
  order of the input. The S-box and its inverse are tables of 16 rows;
  \<open>xtime\<close> is the multiplication by \<open>x\<close> in the field of 256 elements.
\<close>

definition sbox_rows :: "byte list list" where
  "sbox_rows =
     [[0x63, 0x7C, 0x77, 0x7B, 0xF2, 0x6B, 0x6F, 0xC5, 0x30, 0x01, 0x67, 0x2B, 0xFE, 0xD7, 0xAB, 0x76],
      [0xCA, 0x82, 0xC9, 0x7D, 0xFA, 0x59, 0x47, 0xF0, 0xAD, 0xD4, 0xA2, 0xAF, 0x9C, 0xA4, 0x72, 0xC0],
      [0xB7, 0xFD, 0x93, 0x26, 0x36, 0x3F, 0xF7, 0xCC, 0x34, 0xA5, 0xE5, 0xF1, 0x71, 0xD8, 0x31, 0x15],
      [0x04, 0xC7, 0x23, 0xC3, 0x18, 0x96, 0x05, 0x9A, 0x07, 0x12, 0x80, 0xE2, 0xEB, 0x27, 0xB2, 0x75],
      [0x09, 0x83, 0x2C, 0x1A, 0x1B, 0x6E, 0x5A, 0xA0, 0x52, 0x3B, 0xD6, 0xB3, 0x29, 0xE3, 0x2F, 0x84],
      [0x53, 0xD1, 0x00, 0xED, 0x20, 0xFC, 0xB1, 0x5B, 0x6A, 0xCB, 0xBE, 0x39, 0x4A, 0x4C, 0x58, 0xCF],
      [0xD0, 0xEF, 0xAA, 0xFB, 0x43, 0x4D, 0x33, 0x85, 0x45, 0xF9, 0x02, 0x7F, 0x50, 0x3C, 0x9F, 0xA8],
      [0x51, 0xA3, 0x40, 0x8F, 0x92, 0x9D, 0x38, 0xF5, 0xBC, 0xB6, 0xDA, 0x21, 0x10, 0xFF, 0xF3, 0xD2],
      [0xCD, 0x0C, 0x13, 0xEC, 0x5F, 0x97, 0x44, 0x17, 0xC4, 0xA7, 0x7E, 0x3D, 0x64, 0x5D, 0x19, 0x73],
      [0x60, 0x81, 0x4F, 0xDC, 0x22, 0x2A, 0x90, 0x88, 0x46, 0xEE, 0xB8, 0x14, 0xDE, 0x5E, 0x0B, 0xDB],
      [0xE0, 0x32, 0x3A, 0x0A, 0x49, 0x06, 0x24, 0x5C, 0xC2, 0xD3, 0xAC, 0x62, 0x91, 0x95, 0xE4, 0x79],
      [0xE7, 0xC8, 0x37, 0x6D, 0x8D, 0xD5, 0x4E, 0xA9, 0x6C, 0x56, 0xF4, 0xEA, 0x65, 0x7A, 0xAE, 0x08],
      [0xBA, 0x78, 0x25, 0x2E, 0x1C, 0xA6, 0xB4, 0xC6, 0xE8, 0xDD, 0x74, 0x1F, 0x4B, 0xBD, 0x8B, 0x8A],
      [0x70, 0x3E, 0xB5, 0x66, 0x48, 0x03, 0xF6, 0x0E, 0x61, 0x35, 0x57, 0xB9, 0x86, 0xC1, 0x1D, 0x9E],
      [0xE1, 0xF8, 0x98, 0x11, 0x69, 0xD9, 0x8E, 0x94, 0x9B, 0x1E, 0x87, 0xE9, 0xCE, 0x55, 0x28, 0xDF],
      [0x8C, 0xA1, 0x89, 0x0D, 0xBF, 0xE6, 0x42, 0x68, 0x41, 0x99, 0x2D, 0x0F, 0xB0, 0x54, 0xBB, 0x16]]"

definition inv_sbox_rows :: "byte list list" where
  "inv_sbox_rows =
     [[0x52, 0x09, 0x6A, 0xD5, 0x30, 0x36, 0xA5, 0x38, 0xBF, 0x40, 0xA3, 0x9E, 0x81, 0xF3, 0xD7, 0xFB],
      [0x7C, 0xE3, 0x39, 0x82, 0x9B, 0x2F, 0xFF, 0x87, 0x34, 0x8E, 0x43, 0x44, 0xC4, 0xDE, 0xE9, 0xCB],
      [0x54, 0x7B, 0x94, 0x32, 0xA6, 0xC2, 0x23, 0x3D, 0xEE, 0x4C, 0x95, 0x0B, 0x42, 0xFA, 0xC3, 0x4E],
      [0x08, 0x2E, 0xA1, 0x66, 0x28, 0xD9, 0x24, 0xB2, 0x76, 0x5B, 0xA2, 0x49, 0x6D, 0x8B, 0xD1, 0x25],
      [0x72, 0xF8, 0xF6, 0x64, 0x86, 0x68, 0x98, 0x16, 0xD4, 0xA4, 0x5C, 0xCC, 0x5D, 0x65, 0xB6, 0x92],
      [0x6C, 0x70, 0x48, 0x50, 0xFD, 0xED, 0xB9, 0xDA, 0x5E, 0x15, 0x46, 0x57, 0xA7, 0x8D, 0x9D, 0x84],
      [0x90, 0xD8, 0xAB, 0x00, 0x8C, 0xBC, 0xD3, 0x0A, 0xF7, 0xE4, 0x58, 0x05, 0xB8, 0xB3, 0x45, 0x06],
      [0xD0, 0x2C, 0x1E, 0x8F, 0xCA, 0x3F, 0x0F, 0x02, 0xC1, 0xAF, 0xBD, 0x03, 0x01, 0x13, 0x8A, 0x6B],
      [0x3A, 0x91, 0x11, 0x41, 0x4F, 0x67, 0xDC, 0xEA, 0x97, 0xF2, 0xCF, 0xCE, 0xF0, 0xB4, 0xE6, 0x73],
      [0x96, 0xAC, 0x74, 0x22, 0xE7, 0xAD, 0x35, 0x85, 0xE2, 0xF9, 0x37, 0xE8, 0x1C, 0x75, 0xDF, 0x6E],
      [0x47, 0xF1, 0x1A, 0x71, 0x1D, 0x29, 0xC5, 0x89, 0x6F, 0xB7, 0x62, 0x0E, 0xAA, 0x18, 0xBE, 0x1B],
      [0xFC, 0x56, 0x3E, 0x4B, 0xC6, 0xD2, 0x79, 0x20, 0x9A, 0xDB, 0xC0, 0xFE, 0x78, 0xCD, 0x5A, 0xF4],
      [0x1F, 0xDD, 0xA8, 0x33, 0x88, 0x07, 0xC7, 0x31, 0xB1, 0x12, 0x10, 0x59, 0x27, 0x80, 0xEC, 0x5F],
      [0x60, 0x51, 0x7F, 0xA9, 0x19, 0xB5, 0x4A, 0x0D, 0x2D, 0xE5, 0x7A, 0x9F, 0x93, 0xC9, 0x9C, 0xEF],
      [0xA0, 0xE0, 0x3B, 0x4D, 0xAE, 0x2A, 0xF5, 0xB0, 0xC8, 0xEB, 0xBB, 0x3C, 0x83, 0x53, 0x99, 0x61],
      [0x17, 0x2B, 0x04, 0x7E, 0xBA, 0x77, 0xD6, 0x26, 0xE1, 0x69, 0x14, 0x63, 0x55, 0x21, 0x0C, 0x7D]]"

definition sbox :: "byte \<Rightarrow> byte" where
  "sbox b = sbox_rows ! (unat b div 16) ! (unat b mod 16)"

definition inv_sbox :: "byte \<Rightarrow> byte" where
  "inv_sbox b = inv_sbox_rows ! (unat b div 16) ! (unat b mod 16)"

definition xtime :: "byte \<Rightarrow> byte" where
  "xtime b = (if bit b 7 then push_bit 1 b XOR 0x1B else push_bit 1 b)"

definition sub_bytes :: "buffer \<Rightarrow> buffer" where
  "sub_bytes s = map sbox s"

definition inv_sub_bytes :: "buffer \<Rightarrow> buffer" where
  "inv_sub_bytes s = map inv_sbox s"

fun shift_rows :: "buffer \<Rightarrow> buffer" where
  "shift_rows [s0, s1, s2, s3, s4, s5, s6, s7, s8, s9, s10, s11, s12, s13, s14, s15] =
     [s0, s5, s10, s15, s4, s9, s14, s3, s8, s13, s2, s7, s12, s1, s6, s11]"
| "shift_rows s = s"

fun inv_shift_rows :: "buffer \<Rightarrow> buffer" where
  "inv_shift_rows [s0, s1, s2, s3, s4, s5, s6, s7, s8, s9, s10, s11, s12, s13, s14, s15] =
     [s0, s13, s10, s7, s4, s1, s14, s11, s8, s5, s2, s15, s12, s9, s6, s3]"
| "inv_shift_rows s = s"

definition mix_column :: "byte \<Rightarrow> byte \<Rightarrow> byte \<Rightarrow> byte \<Rightarrow> buffer" where
  "mix_column a b c d =
     [xtime a XOR (xtime b XOR b) XOR c XOR d,
      a XOR xtime b XOR (xtime c XOR c) XOR d,
      a XOR b XOR xtime c XOR (xtime d XOR d),
      (xtime a XOR a) XOR b XOR c XOR xtime d]"

fun mix_columns :: "buffer \<Rightarrow> buffer" where
  "mix_columns (a # b # c # d # rest) = mix_column a b c d @ mix_columns rest"
| "mix_columns s = s"

definition mul9 :: "byte \<Rightarrow> byte" where
  "mul9 b = xtime (xtime (xtime b)) XOR b"

definition mul11 :: "byte \<Rightarrow> byte" where
  "mul11 b = xtime (xtime (xtime b)) XOR xtime b XOR b"

definition mul13 :: "byte \<Rightarrow> byte" where
  "mul13 b = xtime (xtime (xtime b)) XOR xtime (xtime b) XOR b"

definition mul14 :: "byte \<Rightarrow> byte" where
  "mul14 b = xtime (xtime (xtime b)) XOR xtime (xtime b) XOR xtime b"

definition inv_mix_column :: "byte \<Rightarrow> byte \<Rightarrow> byte \<Rightarrow> byte \<Rightarrow> buffer" where
  "inv_mix_column a b c d =
     [mul14 a XOR mul11 b XOR mul13 c XOR mul9 d,
      mul9 a XOR mul14 b XOR mul11 c XOR mul13 d,
      mul13 a XOR mul9 b XOR mul14 c XOR mul11 d,
      mul11 a XOR mul13 b XOR mul9 c XOR mul14 d]"

fun inv_mix_columns :: "buffer \<Rightarrow> buffer" where
  "inv_mix_columns (a # b # c # d # rest) = inv_mix_column a b c d @ inv_mix_columns rest"
| "inv_mix_columns s = s"

text \<open>
  Key expansion: the next round key from the previous one and the round
  constant.
\<close>

fun next_round_key :: "byte \<Rightarrow> buffer \<Rightarrow> buffer" where
  "next_round_key rc [k0, k1, k2, k3, k4, k5, k6, k7, k8, k9, k10, k11, k12, k13, k14, k15] =
     (let w0 = xor_bytes [k0, k1, k2, k3] [sbox k13 XOR rc, sbox k14, sbox k15, sbox k12];
          w1 = xor_bytes [k4, k5, k6, k7] w0;
          w2 = xor_bytes [k8, k9, k10, k11] w1;
          w3 = xor_bytes [k12, k13, k14, k15] w2
      in w0 @ w1 @ w2 @ w3)"
| "next_round_key rc k = k"

definition rcon :: "byte list" where
  "rcon = [0x01, 0x02, 0x04, 0x08, 0x10, 0x20, 0x40, 0x80, 0x1B, 0x36]"

fun key_schedule :: "byte list \<Rightarrow> buffer \<Rightarrow> buffer list" where
  "key_schedule [] k = []"
| "key_schedule (rc # rcs) k = next_round_key rc k # key_schedule rcs (next_round_key rc k)"

definition aes_round :: "buffer \<Rightarrow> buffer \<Rightarrow> buffer" where
  "aes_round rk s = xor_bytes (mix_columns (shift_rows (sub_bytes s))) rk"

definition aes_inv_round :: "buffer \<Rightarrow> buffer \<Rightarrow> buffer" where
  "aes_inv_round rk s = inv_sub_bytes (inv_shift_rows (inv_mix_columns (xor_bytes s rk)))"

fun aes_rounds :: "buffer list \<Rightarrow> buffer \<Rightarrow> buffer" where
  "aes_rounds [] s = s"
| "aes_rounds (rk # rks) s = aes_rounds rks (aes_round rk s)"

fun aes_inv_rounds :: "buffer list \<Rightarrow> buffer \<Rightarrow> buffer" where
  "aes_inv_rounds [] s = s"
| "aes_inv_rounds (rk # rks) s = aes_inv_round rk (aes_inv_rounds rks s)"

definition aes128_encrypt_block :: "buffer \<Rightarrow> buffer \<Rightarrow> buffer" where
  "aes128_encrypt_block key blk =
     (let rks = key_schedule rcon key
      in xor_bytes (shift_rows (sub_bytes (aes_rounds (take 9 rks) (xor_bytes blk key)))) (rks ! 9))"

definition aes128_decrypt_block :: "buffer \<Rightarrow> buffer \<Rightarrow> buffer" where
  "aes128_decrypt_block key blk =
     (let rks = key_schedule rcon key
      in xor_bytes (aes_inv_rounds (take 9 rks)
                      (inv_sub_bytes (inv_shift_rows (xor_bytes blk (rks ! 9))))) key)"

subsection \<open>Cipher-block chaining and padding\<close>

function cbc_encrypt :: "(buffer \<Rightarrow> buffer) \<Rightarrow> buffer \<Rightarrow> buffer \<Rightarrow> buffer" where
  "cbc_encrypt E ch input =
     (if length input < 16 then []
      else (let c = E (xor_bytes (take 16 input) ch)
            in c @ cbc_encrypt E c (drop 16 input)))"
  by pat_completeness auto
termination
  by (relation "measure (\<lambda>(E, ch, input). length input)") auto

function cbc_decrypt :: "(buffer \<Rightarrow> buffer) \<Rightarrow> buffer \<Rightarrow> buffer \<Rightarrow> buffer" where
  "cbc_decrypt D ch input =
     (if length input < 16 then []
      else (let c = take 16 input
            in xor_bytes (D c) ch @ cbc_decrypt D c (drop 16 input)))"
  by pat_completeness auto
termination
  by (relation "measure (\<lambda>(D, ch, input). length input)") auto

declare cbc_encrypt.simps [simp del]
declare cbc_decrypt.simps [simp del]

definition pkcs7_pad :: "buffer \<Rightarrow> buffer" where
  "pkcs7_pad input =
     (let n = 16 - length input mod 16 in input @ replicate n (of_nat n))"

definition pkcs7_unpad :: "buffer \<Rightarrow> error + buffer" where
  "pkcs7_unpad blk =
     (if blk = [] then Inl BadDecrypt
      else (let n = unat (last blk)
            in if n = 0 \<or> n > 16 \<or> n > length blk then Inl BadDecrypt
               else if drop (length blk - n) blk = replicate n (of_nat n)
               then Inr (take (length blk - n) blk)
               else Inl BadDecrypt))"

text \<open>
  A \<open>Cipher\<close> or \<open>Decipher\<close> object: the key, the chaining value (the IV at
  first, then the last ciphertext block), the input bytes that do not fill a
  block yet and, when deciphering, the last plaintext block, which is kept
  back until \<open>final\<close> removes the padding.
\<close>

record cipher =
  cipher_key :: buffer
  chain :: buffer
  pending :: buffer
  held :: "buffer option"

definition createCipheriv :: "buffer \<Rightarrow> buffer \<Rightarrow> error + cipher" where
  "createCipheriv key iv =
     (if length key \<noteq> 16 then Inl InvalidKeyLength
      else if length iv \<noteq> 16 then Inl InvalidIV
      else Inr \<lparr>cipher_key = key, chain = iv, pending = [], held = None\<rparr>)"

definition createDecipheriv :: "buffer \<Rightarrow> buffer \<Rightarrow> error + cipher" where
  "createDecipheriv key iv = createCipheriv key iv"

definition last_block :: "buffer \<Rightarrow> buffer" where
  "last_block out = drop (length out - 16) out"

definition cipher_update :: "crypto \<Rightarrow> cipher \<Rightarrow> buffer \<Rightarrow> cipher \<times> buffer" where
  "cipher_update cr st input =
     (let inp = pending st @ input;
          out = cbc_encrypt (block_encrypt cr (cipher_key st)) (chain st) inp
      in (st\<lparr>chain := (if out = [] then chain st else last_block out),
              pending := drop (length inp - length inp mod 16) inp\<rparr>, out))"

definition cipher_final :: "crypto \<Rightarrow> cipher \<Rightarrow> buffer" where
  "cipher_final cr st =
     cbc_encrypt (block_encrypt cr (cipher_key st)) (chain st) (pkcs7_pad (pending st))"

definition decipher_update :: "crypto \<Rightarrow> cipher \<Rightarrow> buffer \<Rightarrow> cipher \<times> buffer" where
  "decipher_update cr st input =
     (if input = [] then (st, [])
      else
        (let inp = pending st @ input;
             plain = cbc_decrypt (block_decrypt cr (cipher_key st)) (chain st) inp;
             released = (case held st of None \<Rightarrow> [] | Some h \<Rightarrow> h);
             full = take (length inp - length inp mod 16) inp;
             st' = st\<lparr>chain := (if full = [] then chain st else last_block full),
                      pending := drop (length inp - length inp mod 16) inp\<rparr>
         in if length inp mod 16 = 0
            then (st'\<lparr>held := Some (last_block plain)\<rparr>,
                  released @ take (length plain - 16) plain)
            else (st'\<lparr>held := None\<rparr>, released @ plain)))"

definition decipher_final :: "cipher \<Rightarrow> error + buffer" where
  "decipher_final st =
     (if pending st \<noteq> [] then Inl WrongFinalBlockLength
      else (case held st of
              None \<Rightarrow> Inl WrongFinalBlockLength
            | Some blk \<Rightarrow> pkcs7_unpad blk))"

text \<open>
  The module of a Node process: AES-128, and a random generator in state \<open>r\<close>.
  \<open>crypto0\<close> is the module whose generator would return zero bytes.
\<close>

definition aes128_crypto :: "(nat \<Rightarrow> buffer) \<Rightarrow> crypto" where
  "aes128_crypto r =
     \<lparr>block_encrypt = aes128_encrypt_block,
      block_decrypt = aes128_decrypt_block,
      randomBytes = r\<rparr>"

definition crypto0 :: crypto where
  "crypto0 = aes128_crypto (\<lambda>n. replicate n 0)"

section \<open>\<open>src/main/filesystem/markdown.js\<close>\<close>

text \<open>
  \<open>mm\<close> is the hex MD5 digest of the string \<open>43214321md\<close>, computed once when
  the module is loaded.
\<close>

definition mm :: jsstring where
  "mm = js ''157016ad77a8f12fe276db44226b352e''"

text \<open>
  \<open>aesEncryptiv\<close> and \<open>aesDecryptiv\<close>. The output of \<open>update\<close> and of \<open>final\<close>
  pass through one streaming encoder, so their concatenation is the encoding
  of the concatenated bytes.
\<close>

definition aesEncryptiv :: "crypto \<Rightarrow> jsstring \<Rightarrow> jsstring \<Rightarrow> error + jsstring" where
  "aesEncryptiv cr str key =
     (let keyBuffer = hex_decode key;
          iv = keyBuffer
      in case createCipheriv keyBuffer iv of
           Inl e \<Rightarrow> Inl e
         | Inr c \<Rightarrow>
             (let (c', out1) = cipher_update cr c (utf8_encode str);
                  out2 = cipher_final cr c'
              in Inr (base64_encode (out1 @ out2))))"

definition aesDecryptiv :: "crypto \<Rightarrow> jsstring \<Rightarrow> jsstring \<Rightarrow> error + jsstring" where
  "aesDecryptiv cr str key =
     (let keyBuffer = hex_decode key;
          iv = keyBuffer
      in case createDecipheriv keyBuffer iv of
           Inl e \<Rightarrow> Inl e
         | Inr d \<Rightarrow>
             (let (d', out1) = decipher_update cr d (base64_decode str)
              in case decipher_final d' of
                   Inl e \<Rightarrow> Inl e
                 | Inr out2 \<Rightarrow> Inr (utf8_decode (out1 @ out2))))"

subsection \<open>Line endings\<close>

text \<open>
  Modelled from the spec: the three regular expressions \<open>LINE_ENDING_REG\<close>,
  \<open>LF_LINE_ENDING_REG\<close> and \<open>CRLF_LINE_ENDING_REG\<close> are imported from the
  configuration module, which is not part of the sources at hand. Detection
  looks for a line feed that no carriage return precedes, and for a carriage
  return followed by a line feed; a line ending is either of \<open>\r\n\<close> and
  \<open>\n\<close>.
\<close>

fun bare_lf :: "bool \<Rightarrow> jsstring \<Rightarrow> bool" where
  "bare_lf afterCR [] = False"
| "bare_lf afterCR (c # cs) = ((c = LF \<and> \<not> afterCR) \<or> bare_lf (c = CR) cs)"

definition LF_LINE_ENDING_REG_test :: "jsstring \<Rightarrow> bool" where
  "LF_LINE_ENDING_REG_test text = bare_lf False text"

fun CRLF_LINE_ENDING_REG_test :: "jsstring \<Rightarrow> bool" where
  "CRLF_LINE_ENDING_REG_test [] = False"
| "CRLF_LINE_ENDING_REG_test (c # cs) =
     ((c = CR \<and> cs \<noteq> [] \<and> hd cs = LF) \<or> CRLF_LINE_ENDING_REG_test cs)"

text \<open>\<open>text.replace(LINE_ENDING_REG, eol)\<close>: every line ending is replaced.\<close>

fun replace_LINE_ENDING_REG :: "jsstring \<Rightarrow> jsstring \<Rightarrow> jsstring" where
  "replace_LINE_ENDING_REG [] eol = []"
| "replace_LINE_ENDING_REG (c # cs) eol =
     (if c = CR \<and> cs \<noteq> [] \<and> hd cs = LF then eol @ replace_LINE_ENDING_REG (tl cs) eol
      else if c = LF then eol @ replace_LINE_ENDING_REG cs eol
      else c # replace_LINE_ENDING_REG cs eol)"

definition getLineEnding :: "jsstring \<Rightarrow> jsstring" where
  "getLineEnding lineEnding =
     (if lineEnding = js ''lf'' then [LF]
      else if lineEnding = js ''crlf'' then [CR, LF]
      else [LF])"

definition convertLineEndings :: "jsstring \<Rightarrow> jsstring \<Rightarrow> jsstring" where
  "convertLineEndings text lineEnding = replace_LINE_ENDING_REG text (getLineEnding lineEnding)"

subsection \<open>The file system and the collaborators of load and save\<close>

datatype fsnode = File buffer | Dir "jsstring list"

type_synonym filesystem = "jsstring \<rightharpoonup> fsnode"

definition readFile :: "filesystem \<Rightarrow> jsstring \<Rightarrow> error + buffer" where
  "readFile fs p =
     (case fs p of None \<Rightarrow> Inl ENOENT | Some (Dir _) \<Rightarrow> Inl EISDIR | Some (File b) \<Rightarrow> Inr b)"

definition existsSync :: "filesystem \<Rightarrow> jsstring \<Rightarrow> bool" where
  "existsSync fs p = (fs p \<noteq> None)"

definition readdirSync :: "filesystem \<Rightarrow> jsstring \<Rightarrow> error + jsstring list" where
  "readdirSync fs p =
     (case fs p of None \<Rightarrow> Inl ENOENT | Some (File _) \<Rightarrow> Inl ENOTDIR | Some (Dir es) \<Rightarrow> Inr es)"

record encoding_info =
  encoding :: jsstring
  isBom :: bool

text \<open>
  What the two functions reach outside themselves: the file system,
  \<open>path.resolve\<close> (which depends on the working directory), \<open>guessEncoding\<close>
  (a module that is not part of the sources at hand), the \<open>iconv-lite\<close> codecs
  and the \<open>crypto\<close> module.
\<close>

record node_env =
  fs :: filesystem
  path_resolve :: "jsstring \<Rightarrow> jsstring"
  guessEncoding :: "buffer \<Rightarrow> bool \<Rightarrow> encoding_info"
  encodingExists :: "jsstring \<Rightarrow> bool"
  iconv_decode :: "buffer \<Rightarrow> jsstring \<Rightarrow> jsstring"
  iconv_encode :: "jsstring \<Rightarrow> jsstring \<Rightarrow> bool \<Rightarrow> buffer"
  node_crypto :: crypto

subsection \<open>\<open>writeMarkdownFile\<close>\<close>

record options =
  opt_adjustLineEndingOnSave :: bool
  opt_lineEnding :: jsstring
  opt_encoding :: encoding_info

text \<open>
  The function ends by calling \<open>writeFile(pathname, buffer, extension, undefined)\<close>
  of the file-system module; the model returns the arguments of that call.
\<close>

record writeFile_call =
  wf_pathname :: jsstring
  wf_buffer :: buffer
  wf_extension :: jsstring

definition writeMarkdownFile ::
  "node_env \<Rightarrow> jsstring \<Rightarrow> jsstring \<Rightarrow> options \<Rightarrow> error + writeFile_call" where
  "writeMarkdownFile env pathname content opts =
     (let extension = (if extname pathname \<noteq> [] then extname pathname else js ''.md'');
          content1 = (if opt_adjustLineEndingOnSave opts
                      then convertLineEndings content (opt_lineEnding opts) else content)
      in case (if extension = js ''.mde''
               then aesEncryptiv (node_crypto env) content1 mm else Inr content1) of
           Inl e \<Rightarrow> Inl e
         | Inr content2 \<Rightarrow>
             Inr \<lparr>wf_pathname = pathname,
                  wf_buffer = iconv_encode env content2 (encoding (opt_encoding opts))
                                (isBom (opt_encoding opts)),
                  wf_extension = extension\<rparr>)"

subsection \<open>\<open>loadMarkdownFile\<close>\<close>

text \<open>
  The \<open>try\<close> block around the decryption has an empty \<open>catch\<close>: when
  \<open>aesDecryptiv\<close> throws, \<open>markdown\<close> keeps the decoded file text.
\<close>

definition decrypt_on_load :: "crypto \<Rightarrow> jsstring \<Rightarrow> jsstring \<Rightarrow> jsstring" where
  "decrypt_on_load cr pathname markdown =
     (if endsWith pathname (js ''.mde'')
      then (case aesDecryptiv cr markdown mm of Inl err \<Rightarrow> markdown | Inr plain \<Rightarrow> plain)
      else markdown)"

text \<open>The block "Detect final newline", entered when the argument is 2.\<close>

definition detect_final_newline :: "jsstring \<Rightarrow> int" where
  "detect_final_newline markdown =
     (if markdown = [] then 3
      else (let lastIndex = int (length markdown) - 1
            in if lastIndex \<ge> 1 \<and> markdown ! nat lastIndex = LF \<and> markdown ! nat (lastIndex - 1) = LF
               then 2
               else if markdown ! nat lastIndex = LF then 1
               else 0))"

record document =
  markdown :: jsstring
  filename :: jsstring
  pathname :: jsstring
  doc_encoding :: encoding_info
  lineEnding :: jsstring
  adjustLineEndingOnSave :: bool
  trimTrailingNewline :: int
  isMixedLineEndings :: bool

definition loadMarkdownFile ::
  "node_env \<Rightarrow> jsstring \<Rightarrow> jsstring \<Rightarrow> bool \<Rightarrow> int \<Rightarrow> error + document" where
  "loadMarkdownFile env =
     (\<lambda>pathname preferredEol autoGuessEncoding trimTrailingNewline.
      case readFile (fs env) (path_resolve env pathname) of
        Inl e \<Rightarrow> Inl e
      | Inr buffer \<Rightarrow>
          (let enc = guessEncoding env buffer autoGuessEncoding
           in if \<not> encodingExists env (encoding enc) then Inl (UnsupportedEncoding (encoding enc))
              else
                (let decoded = iconv_decode env buffer (encoding enc);
                     markdown = decrypt_on_load (node_crypto env) pathname decoded;
                     isLf = LF_LINE_ENDING_REG_test markdown;
                     isCrlf = CRLF_LINE_ENDING_REG_test markdown;
                     isMixedLineEndings = (isLf \<and> isCrlf);
                     isUnknownEnding = (\<not> isLf \<and> \<not> isCrlf);
                     lineEnding = (if isLf \<and> \<not> isCrlf then js ''lf''
                                   else if isCrlf \<and> \<not> isLf then js ''crlf''
                                   else preferredEol);
                     convert = (isMixedLineEndings \<or> isUnknownEnding \<or> lineEnding \<noteq> js ''lf'');
                     adjustLineEndingOnSave = (if convert then lineEnding \<noteq> js ''lf'' else False);
                     markdown' = (if convert then convertLineEndings markdown (js ''lf'') else markdown);
                     trimTrailingNewline' = (if trimTrailingNewline = 2
                                             then detect_final_newline markdown'
                                             else trimTrailingNewline)
                 in Inr \<lparr>markdown = markdown',
                         filename = basename pathname,
                         pathname = pathname,
                         doc_encoding = enc,
                         lineEnding = lineEnding,
                         adjustLineEndingOnSave = adjustLineEndingOnSave,
                         trimTrailingNewline = trimTrailingNewline',
                         isMixedLineEndings = isMixedLineEndings\<rparr>)))"

section \<open>\<open>src/main/menu/actions/file.js\<close>\<close>

subsection \<open>The two regular expressions\<close>

text \<open>
  Both patterns are sequences of quantified one-character items, so a
  backtracking matcher for such sequences suffices. \<open>AnyChar\<close> is the dot: any
  code unit that is not a line terminator. A quantifier is greedy when its
  flag is \<open>True\<close>. \<open>regex_exec r s\<close> is the rest of \<open>s\<close> after the match that
  a backtracking engine finds first at the start of \<open>s\<close>.
\<close>

datatype atom = Chr jschar | AnyChar

datatype quantifier = Once | Star bool | Plus bool

type_synonym regex = "(atom \<times> quantifier) list"

definition is_line_terminator :: "jschar \<Rightarrow> bool" where
  "is_line_terminator c = (c = LF \<or> c = CR \<or> c = 0x2028 \<or> c = 0x2029)"

fun atom_matches :: "atom \<Rightarrow> jschar \<Rightarrow> bool" where
  "atom_matches (Chr x) c = (c = x)"
| "atom_matches AnyChar c = (\<not> is_line_terminator c)"

function regex_exec :: "regex \<Rightarrow> jsstring \<Rightarrow> jsstring option" where
  "regex_exec [] s = Some s"
| "regex_exec ((a, Once) # r) [] = None"
| "regex_exec ((a, Once) # r) (c # cs) =
     (if atom_matches a c then regex_exec r cs else None)"
| "regex_exec ((a, Plus greedy) # r) [] = None"
| "regex_exec ((a, Plus greedy) # r) (c # cs) =
     (if atom_matches a c then regex_exec ((a, Star greedy) # r) cs else None)"
| "regex_exec ((a, Star greedy) # r) [] = regex_exec r []"
| "regex_exec ((a, Star greedy) # r) (c # cs) =
     (if greedy then
        (if atom_matches a c then
           (case regex_exec ((a, Star greedy) # r) cs of
              Some rest \<Rightarrow> Some rest
            | None \<Rightarrow> regex_exec r (c # cs))
         else regex_exec r (c # cs))
      else
        (case regex_exec r (c # cs) of
           Some rest \<Rightarrow> Some rest
         | None \<Rightarrow> if atom_matches a c then regex_exec ((a, Star greedy) # r) cs else None))"
  by pat_completeness auto
termination
  by (relation "measure (\<lambda>(r, s). length r + length s)") auto

text \<open>
  \<open>str.match(re)\<close> for a pattern with the \<open>g\<close> flag: all matches from left to
  right, each search starting where the previous match ended (one code unit
  later after an empty match). The source turns the \<open>null\<close> of "no match" into
  the empty array.
\<close>

function match_g :: "regex \<Rightarrow> jsstring \<Rightarrow> jsstring list" where
  "match_g r [] = (case regex_exec r [] of Some rest \<Rightarrow> [[]] | None \<Rightarrow> [])"
| "match_g r (c # cs) =
     (case regex_exec r (c # cs) of
        None \<Rightarrow> match_g r cs
      | Some rest \<Rightarrow>
          (if length rest \<le> length cs
           then take (length (c # cs) - length rest) (c # cs) # match_g r rest
           else [] # match_g r cs))"
  by pat_completeness auto
termination
  by (relation "measure (\<lambda>(r, s). length s)") auto

text \<open>\<open>/\[.*?\]\(.+\)/g\<close> and \<open>/ src.+?".+?"/g\<close>.\<close>

definition imgMark_regex :: regex where
  "imgMark_regex =
     [(Chr 0x5B, Once), (AnyChar, Star False), (Chr 0x5D, Once),
      (Chr 0x28, Once), (AnyChar, Plus True), (Chr 0x29, Once)]"

definition imgHtml_regex :: regex where
  "imgHtml_regex =
     [(Chr 0x20, Once), (Chr 0x73, Once), (Chr 0x72, Once), (Chr 0x63, Once),
      (AnyChar, Plus False), (Chr 0x22, Once), (AnyChar, Plus False), (Chr 0x22, Once)]"

subsection \<open>\<open>decodeURI\<close>\<close>

text \<open>
  An escape \<open>%XX\<close> below \<open>0x80\<close> is decoded unless it stands for one of the
  reserved characters \<open>; / ? : @ & = + $ , #\<close>; a larger first octet announces
  a UTF-8 sequence of further escapes. Anything malformed raises \<open>URIError\<close>.
\<close>

definition uri_reserved :: "nat list" where
  "uri_reserved = [0x3B, 0x2F, 0x3F, 0x3A, 0x40, 0x26, 0x3D, 0x2B, 0x24, 0x2C, 0x23]"

abbreviation PERCENT :: jschar where "PERCENT \<equiv> 0x25"

definition hex_octet :: "jschar \<Rightarrow> jschar \<Rightarrow> nat option" where
  "hex_octet h l =
     (case (hex_digit h, hex_digit l) of (Some x, Some y) \<Rightarrow> Some (x * 16 + y) | _ \<Rightarrow> None)"

fun percent_octets :: "nat \<Rightarrow> jsstring \<Rightarrow> nat list option" where
  "percent_octets 0 s = Some []"
| "percent_octets (Suc n) (p # h # l # rest) =
     (if p \<noteq> PERCENT then None
      else (case hex_octet h l of
              None \<Rightarrow> None
            | Some b \<Rightarrow> (case percent_octets n rest of None \<Rightarrow> None | Some bs \<Rightarrow> Some (b # bs))))"
| "percent_octets (Suc n) _ = None"

definition is_continuation :: "nat \<Rightarrow> bool" where
  "is_continuation b = (0x80 \<le> b \<and> b \<le> 0xBF)"

fun utf8_codepoint :: "nat list \<Rightarrow> nat option" where
  "utf8_codepoint [b0, b1] =
     (if 0xC2 \<le> b0 \<and> b0 \<le> 0xDF \<and> is_continuation b1
      then Some ((b0 - 0xC0) * 64 + (b1 - 0x80)) else None)"
| "utf8_codepoint [b0, b1, b2] =
     (if 0xE0 \<le> b0 \<and> b0 \<le> 0xEF
         \<and> (if b0 = 0xE0 then 0xA0 else 0x80) \<le> b1 \<and> b1 \<le> (if b0 = 0xED then 0x9F else 0xBF)
         \<and> is_continuation b2
      then Some (((b0 - 0xE0) * 64 + (b1 - 0x80)) * 64 + (b2 - 0x80)) else None)"
| "utf8_codepoint [b0, b1, b2, b3] =
     (if 0xF0 \<le> b0 \<and> b0 \<le> 0xF4
         \<and> (if b0 = 0xF0 then 0x90 else 0x80) \<le> b1 \<and> b1 \<le> (if b0 = 0xF4 then 0x8F else 0xBF)
         \<and> is_continuation b2 \<and> is_continuation b3
      then Some ((((b0 - 0xF0) * 64 + (b1 - 0x80)) * 64 + (b2 - 0x80)) * 64 + (b3 - 0x80))
      else None)"
| "utf8_codepoint _ = None"

definition leading_ones :: "nat \<Rightarrow> nat" where
  "leading_ones b =
     (if b < 0x80 then 0 else if b < 0xC0 then 1 else if b < 0xE0 then 2
      else if b < 0xF0 then 3 else if b < 0xF8 then 4 else 5)"

function decodeURI :: "jsstring \<Rightarrow> error + jsstring" where
  "decodeURI [] = Inr []"
| "decodeURI (c # cs) =
     (if c \<noteq> PERCENT then
        (case decodeURI cs of Inl e \<Rightarrow> Inl e | Inr r \<Rightarrow> Inr (c # r))
      else if length cs < 2 then Inl URIError
      else
        (case hex_octet (cs ! 0) (cs ! 1) of
           None \<Rightarrow> Inl URIError
         | Some b \<Rightarrow>
             (let n = leading_ones b in
              if n = 0 then
                (case decodeURI (drop 2 cs) of
                   Inl e \<Rightarrow> Inl e
                 | Inr r \<Rightarrow>
                     Inr ((if b \<in> set uri_reserved then c # take 2 cs else [of_nat b]) @ r))
              else if n = 1 \<or> n > 4 then Inl URIError
              else
                (case percent_octets (n - 1) (drop 2 cs) of
                   None \<Rightarrow> Inl URIError
                 | Some bs \<Rightarrow>
                     (case utf8_codepoint (b # bs) of
                        None \<Rightarrow> Inl URIError
                      | Some cp \<Rightarrow>
                          (case decodeURI (drop (2 + 3 * (n - 1)) cs) of
                             Inl e \<Rightarrow> Inl e
                           | Inr r \<Rightarrow> Inr (utf16_of_codepoint cp @ r)))))))"
  by pat_completeness auto
termination
  by (relation "measure length") auto

subsection \<open>\<open>getRelativeImgPathFromMarkdown\<close>\<close>

text \<open>\<open>forEach\<close> with a callback that may throw: the first error ends the loop.\<close>

fun decode_each :: "jsstring list \<Rightarrow> error + jsstring list" where
  "decode_each [] = Inr []"
| "decode_each (e # es) =
     (case decodeURI e of
        Inl err \<Rightarrow> Inl err
      | Inr d \<Rightarrow> (case decode_each es of Inl err \<Rightarrow> Inl err | Inr ds \<Rightarrow> Inr (d # ds)))"

definition getRelativeImgPathFromMarkdown :: "jsstring \<Rightarrow> error + jsstring list" where
  "getRelativeImgPathFromMarkdown md =
     (let imgMark = match_g imgMark_regex md;
          imgHtml = match_g imgHtml_regex md
      in decode_each (imgMark @ imgHtml))"

subsection \<open>\<open>checkImgAndDelete\<close>\<close>

text \<open>
  The inner \<open>forEach\<close>: does some reference contain the name of the directory
  entry?
\<close>

fun ifhas :: "jsstring list \<Rightarrow> jsstring \<Rightarrow> bool" where
  "ifhas [] dirFile = False"
| "ifhas (onePath # others) dirFile = (indexOf onePath dirFile > -1 \<or> ifhas others dirFile)"

fun notNeedFiles :: "jsstring \<Rightarrow> jsstring list \<Rightarrow> jsstring list \<Rightarrow> jsstring list" where
  "notNeedFiles dir imgRow [] = []"
| "notNeedFiles dir imgRow (dirFile # others) =
     (if \<not> ifhas imgRow dirFile
      then (dir @ path_sep @ dirFile) # notNeedFiles dir imgRow others
      else notNeedFiles dir imgRow others)"

definition asset_dir :: "jsstring \<Rightarrow> jsstring" where
  "asset_dir filePath =
     replace (replace filePath (js ''.mde'') (js ''.assets'')) (js ''.md'') (js ''.assets'')"

text \<open>
  The result is the array handed to \<open>tryDelete\<close>, which asks the user and
  moves the paths to the trash; it is empty when the function returns without
  that call (\<open>tryDelete\<close> does nothing on an empty array).
  \<open>checkImgAndDelete_from\<close> is the function after its first statement, for a
  given \<open>imgRow\<close>.
\<close>

definition checkImgAndDelete_from :: "filesystem \<Rightarrow> jsstring \<Rightarrow> jsstring list \<Rightarrow> error + jsstring list" where
  "checkImgAndDelete_from files filePath imgRow =
     (let dir = asset_dir filePath;
          hasDir = existsSync files dir
      in if hasDir \<and> imgRow = [] then Inr [dir]
         else if \<not> hasDir then Inr []
         else (case readdirSync files dir of
                 Inl e \<Rightarrow> Inl e
               | Inr dirFiles \<Rightarrow> Inr (notNeedFiles dir imgRow dirFiles)))"

definition checkImgAndDelete :: "filesystem \<Rightarrow> jsstring \<Rightarrow> jsstring \<Rightarrow> error + jsstring list" where
  "checkImgAndDelete files filePath md =
     (case getRelativeImgPathFromMarkdown md of
        Inl e \<Rightarrow> Inl e
      | Inr imgRow \<Rightarrow> checkImgAndDelete_from files filePath imgRow)"

section \<open>Notions of the specification\<close>

text \<open>
  The names the specification gives to the values of \<open>trimTrailingNewline\<close>.
  The comments of \<open>loadMarkdownFile\<close> call 0 "trim trailing newlines", 1
  "ensure single trailing newline" and 2 "disabled"; 3 is "the default value",
  which the specification calls disabled as well.
\<close>

datatype trailing_newline_policy = trimAll | ensureSingle | disabled

definition trailingNewlinePolicy :: "int \<Rightarrow> trailing_newline_policy" where
  "trailingNewlinePolicy n = (if n = 0 then trimAll else if n = 1 then ensureSingle else disabled)"

text \<open>Every carriage return is directly followed by a line feed.\<close>

fun no_lone_cr :: "jsstring \<Rightarrow> bool" where
  "no_lone_cr [] = True"
| "no_lone_cr (c # cs) = ((if c = CR then cs \<noteq> [] \<and> hd cs = LF else True) \<and> no_lone_cr cs)"

text \<open>
  The asset directory in the words of the specification: the pathname without
  the extension of the document, followed by the suffix \<open>.assets\<close>.
\<close>

definition asset_dir_spec :: "jsstring \<Rightarrow> jsstring" where
  "asset_dir_spec filePath =
     take (length filePath - length (extname filePath)) filePath @ js ''.assets''"

text \<open>
  \<open>String.prototype.isWellFormed\<close>: the string has no surrogate without its
  partner.
\<close>

fun isWellFormed :: "jsstring \<Rightarrow> bool" where
  "isWellFormed [] = True"
| "isWellFormed (c # cs) =
     (if is_high_surrogate c then cs \<noteq> [] \<and> is_low_surrogate (hd cs) \<and> isWellFormed (tl cs)
      else \<not> is_low_surrogate c \<and> isWellFormed cs)"

text \<open>
  What the model asks of the block cipher under a key: a block of 16 bytes is
  encrypted to a block of 16 bytes, and decryption undoes encryption.
\<close>

definition proper_cipher :: "crypto \<Rightarrow> buffer \<Rightarrow> bool" where
  "proper_cipher cr key =
     (\<forall>b. length b = 16 \<longrightarrow>
        length (block_encrypt cr key b) = 16 \<and> block_decrypt cr key (block_encrypt cr key b) = b)"

section \<open>An environment for examples\<close>

text \<open>
  A process that knows the encoding \<open>utf8\<close> only, resolves every path to
  itself and has the given file system and cipher.
\<close>

definition utf8_env :: "crypto \<Rightarrow> filesystem \<Rightarrow> node_env" where
  "utf8_env cr files =
     \<lparr>fs = files,
      path_resolve = (\<lambda>p. p),
      guessEncoding = (\<lambda>buf guess. \<lparr>encoding = js ''utf8'', isBom = False\<rparr>),
      encodingExists = (\<lambda>name. name = js ''utf8''),
      iconv_decode = (\<lambda>buf name. utf8_decode buf),
      iconv_encode = (\<lambda>s name bom. (if bom then [0xEF, 0xBB, 0xBF] else []) @ utf8_encode s),
      node_crypto = cr\<rparr>"

section \<open>Evaluation\<close>

lemmas string_eval = js_def endsWith_def indexOf_def path_sep_def asset_dir_def
  extname_def extname_step_def slice_def basename_def

lemmas utf8_eval = utf8_decode_def utf8_encode_def is_high_surrogate_def is_low_surrogate_def
  utf8_of_codepoint_def utf16_of_codepoint_def utf8_start_def codepoint_of_pair_def

lemmas load_eval = loadMarkdownFile_def utf8_env_def readFile_def Let_def decrypt_on_load_def
  LF_LINE_ENDING_REG_test_def convertLineEndings_def getLineEnding_def detect_final_newline_def

section \<open>Line endings and the trailing newline\<close>

lemma js_lf_neq_crlf: "js ''lf'' \<noteq> js ''crlf''"
  by (simp add: js_def)

lemma convertLineEndings_lf:
  "convertLineEndings t (js ''lf'') = replace_LINE_ENDING_REG t [LF]"
  by (simp add: convertLineEndings_def getLineEnding_def)

lemma no_lone_cr_tl: "no_lone_cr cs \<Longrightarrow> no_lone_cr (tl cs)"
  by (cases cs) auto

lemma replace_LINE_ENDING_REG_no_cr:
  "no_lone_cr t \<Longrightarrow> CR \<notin> set (replace_LINE_ENDING_REG t [LF])"
  by (induction t "[LF]" rule: replace_LINE_ENDING_REG.induct)
     (auto split: if_splits dest: no_lone_cr_tl)

lemma replace_LINE_ENDING_REG_id:
  "\<not> CRLF_LINE_ENDING_REG_test t \<Longrightarrow> replace_LINE_ENDING_REG t [LF] = t"
  by (induction t "[LF]" rule: replace_LINE_ENDING_REG.induct) (auto split: if_splits)

lemma detect_final_newline_cases:
  "detect_final_newline md =
     (if md = [] then 3
      else if endsWith md [LF, LF] then 2
      else if endsWith md [LF] then 1 else 0)"
proof (cases md rule: rev_cases)
  case Nil
  then show ?thesis by (simp add: detect_final_newline_def)
next
  case (snoc ys y)
  note outer = snoc
  show ?thesis
  proof (cases ys rule: rev_cases)
    case Nil
    with outer show ?thesis
      by (simp add: detect_final_newline_def endsWith_def)
  next
    case (snoc zs z)
    with outer show ?thesis
      by (simp add: detect_final_newline_def endsWith_def nth_append Let_def nat_add_distrib)
  qed
qed

text \<open>
  C3. When the file can be read, its encoding is supported and the caller
  supplies no override (the argument is 2), the load succeeds, the content of
  the document is the decoded text of the file with its line endings
  normalised to LF, and the value of \<open>trimTrailingNewline\<close> is determined by
  the end of that content: 3 (disabled) for empty content, 2 (disabled) when
  the last two characters are line feeds, 1 (ensureSingle) when only the last
  character is a line feed, 0 (trimAll) otherwise.
\<close>

theorem trailing_newline_classification:
  assumes "readFile (fs env) (path_resolve env p) = Inr buffer"
    and "encodingExists env (encoding (guessEncoding env buffer guess))"
    and "decoded = decrypt_on_load (node_crypto env) p
                     (iconv_decode env buffer (encoding (guessEncoding env buffer guess)))"
    and "content = convertLineEndings decoded (js ''lf'')"
  shows "\<exists>doc. loadMarkdownFile env p eol guess 2 = Inr doc
           \<and> markdown doc = content
           \<and> trimTrailingNewline doc =
               (if content = [] then 3
                else if endsWith content [LF, LF] then 2
                else if endsWith content [LF] then 1 else 0)
           \<and> trailingNewlinePolicy (trimTrailingNewline doc) =
               (if content = [] then disabled
                else if endsWith content [LF, LF] then disabled
                else if endsWith content [LF] then ensureSingle else trimAll)"
proof -
  obtain doc where l: "loadMarkdownFile env p eol guess 2 = Inr doc"
    using assms(1,2) by (simp add: loadMarkdownFile_def Let_def)
  have m: "markdown doc = content"
    using l assms
    by (auto simp: loadMarkdownFile_def Let_def convertLineEndings_lf replace_LINE_ENDING_REG_id
          js_lf_neq_crlf js_lf_neq_crlf[symmetric] split: if_splits)
  from l assms(1,2) have "trimTrailingNewline doc = detect_final_newline (markdown doc)"
    by (auto simp: loadMarkdownFile_def Let_def split: if_splits)
  with m have "trimTrailingNewline doc =
               (if content = [] then 3
                else if endsWith content [LF, LF] then 2
                else if endsWith content [LF] then 1 else 0)"
    by (simp add: detect_final_newline_cases)
  with l m show ?thesis
    by (auto simp: trailingNewlinePolicy_def)
qed

theorem trailing_newline_classification_witness:
  "\<exists>doc. loadMarkdownFile (utf8_env crypto0 [js ''/a.md'' \<mapsto> File [0x61, 0x0D, 0x0A]])
            (js ''/a.md'') (js ''lf'') True 2 = Inr doc
         \<and> markdown doc = [0x61, 0x0A]
         \<and> trimTrailingNewline doc = 1
         \<and> trailingNewlinePolicy (trimTrailingNewline doc) = ensureSingle"
proof -
  let ?env = "utf8_env crypto0 [js ''/a.md'' \<mapsto> File [0x61, 0x0D, 0x0A]]"
  have r: "readFile (fs ?env) (path_resolve ?env (js ''/a.md'')) = Inr [0x61, 0x0D, 0x0A]"
    by (simp add: utf8_env_def readFile_def)
  have x: "encodingExists ?env (encoding (guessEncoding ?env [0x61, 0x0D, 0x0A] True))"
    by (simp add: utf8_env_def)
  have d: "[0x61, 0x0D, 0x0A] = decrypt_on_load (node_crypto ?env) (js ''/a.md'')
             (iconv_decode ?env [0x61, 0x0D, 0x0A]
               (encoding (guessEncoding ?env [0x61, 0x0D, 0x0A] True)))"
    by (simp add: utf8_env_def decrypt_on_load_def string_eval utf8_eval)
  have c: "[0x61, 0x0A] = convertLineEndings [0x61, 0x0D, 0x0A] (js ''lf'')"
    by (simp add: convertLineEndings_lf)
  from trailing_newline_classification[OF r x d c, of "js ''lf''"] show ?thesis
    by (simp add: endsWith_def)
qed

text \<open>
  C4, as the code has it. The flag \<open>adjustLineEndingOnSave\<close> of a loaded
  document is true exactly when the resolved line-ending style is not \<open>lf\<close>;
  mixed or unknown line endings alone do not set it.
\<close>

theorem adjustLineEndingOnSave_iff:
  assumes "loadMarkdownFile env p eol guess t = Inr doc"
  shows "adjustLineEndingOnSave doc = (lineEnding doc \<noteq> js ''lf'')"
  using assms
  by (auto simp: loadMarkdownFile_def Let_def split: sum.splits if_splits)

theorem adjustLineEndingOnSave_iff_witness:
  "adjustLineEndingOnSave
     (projr (loadMarkdownFile (utf8_env crypto0 [js ''/a.md'' \<mapsto> File [0x61, 0x0D, 0x0A]])
               (js ''/a.md'') (js ''lf'') True 2))"
proof -
  let ?load = "loadMarkdownFile (utf8_env crypto0 [js ''/a.md'' \<mapsto> File [0x61, 0x0D, 0x0A]])
                 (js ''/a.md'') (js ''lf'') True 2"
  have l: "?load = Inr (projr ?load)"
    by (simp add: load_eval string_eval utf8_eval)
  have "lineEnding (projr ?load) = js ''crlf''"
    by (simp add: load_eval string_eval utf8_eval)
  with adjustLineEndingOnSave_iff[OF l] show ?thesis
    by (simp add: js_def)
qed

text \<open>
  C4, as stated, fails: a file with both an LF and a CRLF line ending, loaded
  with the preferred style \<open>lf\<close>, is reported as mixed and yet
  \<open>adjustLineEndingOnSave\<close> is false.
\<close>

theorem adjustLineEndingOnSave_mixed_counterexample:
  "loadMarkdownFile
       (utf8_env crypto0 [js ''/a.md'' \<mapsto> File [0x61, 0x0A, 0x62, 0x0D, 0x0A]])
       (js ''/a.md'') (js ''lf'') True 2
     = Inr \<lparr>markdown = [0x61, 0x0A, 0x62, 0x0A], filename = js ''a.md'', pathname = js ''/a.md'',
            doc_encoding = \<lparr>encoding = js ''utf8'', isBom = False\<rparr>,
            lineEnding = js ''lf'', adjustLineEndingOnSave = False,
            trimTrailingNewline = 1, isMixedLineEndings = True\<rparr>"
  by (simp add: load_eval string_eval utf8_eval)

text \<open>
  C5, as the code has it. The returned content is the decoded (and, for a
  secure file, decrypted) text with every line ending \<open>\r\n\<close> or \<open>\n\<close>
  replaced by \<open>\n\<close>. It contains no carriage return when every carriage
  return of that text is directly followed by a line feed.
\<close>

theorem loaded_markdown_normalized:
  assumes "loadMarkdownFile env p eol guess t = Inr doc"
    and "readFile (fs env) (path_resolve env p) = Inr buffer"
    and "decoded = decrypt_on_load (node_crypto env) p
                     (iconv_decode env buffer (encoding (guessEncoding env buffer guess)))"
  shows "markdown doc = convertLineEndings decoded (js ''lf'')
       \<and> (no_lone_cr decoded \<longrightarrow> CR \<notin> set (markdown doc))"
proof -
  have "markdown doc = convertLineEndings decoded (js ''lf'')"
    using assms
    by (auto simp: loadMarkdownFile_def Let_def convertLineEndings_lf replace_LINE_ENDING_REG_id
          js_lf_neq_crlf js_lf_neq_crlf[symmetric] split: if_splits)
  with replace_LINE_ENDING_REG_no_cr[of decoded] show ?thesis
    by (simp add: convertLineEndings_lf)
qed

theorem loaded_markdown_normalized_witness:
  "no_lone_cr [0x61, 0x0D, 0x0A, 0x62]
   \<and> CR \<notin> set (markdown (projr (loadMarkdownFile
         (utf8_env crypto0 [js ''/a.md'' \<mapsto> File [0x61, 0x0D, 0x0A, 0x62]])
         (js ''/a.md'') (js ''lf'') True 2)))"
proof -
  let ?env = "utf8_env crypto0 [js ''/a.md'' \<mapsto> File [0x61, 0x0D, 0x0A, 0x62]]"
  let ?load = "loadMarkdownFile ?env (js ''/a.md'') (js ''lf'') True 2"
  have l: "?load = Inr (projr ?load)"
    by (simp add: load_eval string_eval utf8_eval)
  have r: "readFile (fs ?env) (path_resolve ?env (js ''/a.md'')) = Inr [0x61, 0x0D, 0x0A, 0x62]"
    by (simp add: load_eval string_eval)
  have d: "decrypt_on_load (node_crypto ?env) (js ''/a.md'')
             (iconv_decode ?env [0x61, 0x0D, 0x0A, 0x62]
               (encoding (guessEncoding ?env [0x61, 0x0D, 0x0A, 0x62] True)))
           = [0x61, 0x0D, 0x0A, 0x62]"
    by (simp add: load_eval string_eval utf8_eval)
  have n: "no_lone_cr [0x61, 0x0D, 0x0A, 0x62]"
    by simp
  from loaded_markdown_normalized[OF l r d[symmetric]] n show ?thesis
    by blast
qed

text \<open>
  C5, as stated, fails: a carriage return that is not followed by a line feed
  survives the load.
\<close>

theorem loaded_markdown_cr_counterexample:
  "\<not> isl (loadMarkdownFile (utf8_env crypto0 [js ''/a.md'' \<mapsto> File [0x61, 0x0D, 0x62]])
             (js ''/a.md'') (js ''lf'') True 2)
   \<and> CR \<in> set (markdown (projr (loadMarkdownFile
         (utf8_env crypto0 [js ''/a.md'' \<mapsto> File [0x61, 0x0D, 0x62]])
         (js ''/a.md'') (js ''lf'') True 2)))"
  by (simp add: load_eval string_eval utf8_eval)

section \<open>Asset references and orphans\<close>

text \<open>
  C6, as the code has it. For the input \<open>![x](a.png) <img src="b.png">\<close> the
  scanner returns two strings, the markdown-style match first: the whole
  matched texts \<open>[x](a.png)\<close> and \<open> src="b.png"\<close>, each passed through
  \<open>decodeURI\<close>. They contain \<open>a.png\<close> and \<open>b.png\<close>; the link target and the
  attribute value are not captured on their own. \<open>decodeURI\<close> decodes an
  escape such as \<open>%20\<close> and keeps the escape of a reserved character such as
  \<open>%2F\<close>.
\<close>

theorem scanner_example:
  "getRelativeImgPathFromMarkdown (js ''![x](a.png) <img src=\"b.png\">'')
     = Inr [js ''[x](a.png)'', js '' src=\"b.png\"'']
   \<and> getRelativeImgPathFromMarkdown (js ''![x](a%20b%2Fc.png)'')
     = Inr [js ''[x](a b%2Fc.png)'']"
  by (simp add: getRelativeImgPathFromMarkdown_def js_def imgMark_regex_def imgHtml_regex_def
        is_line_terminator_def hex_octet_def hex_digit_def leading_ones_def uri_reserved_def)

text \<open>
  C6, as stated, fails: the returned sequence is not the sequence of the two
  targets \<open>a.png\<close> and \<open>b.png\<close>, and \<open>a.png\<close> is not one of its elements.
\<close>

theorem scanner_example_counterexample:
  "getRelativeImgPathFromMarkdown (js ''![x](a.png) <img src=\"b.png\">'')
     \<noteq> Inr [js ''a.png'', js ''b.png'']
   \<and> js ''a.png'' \<notin> set (projr (getRelativeImgPathFromMarkdown
                                   (js ''![x](a.png) <img src=\"b.png\">'')))"
  by (simp add: getRelativeImgPathFromMarkdown_def js_def imgMark_regex_def imgHtml_regex_def
        is_line_terminator_def)

lemma startsWith_prefix: "startsWith s p \<longleftrightarrow> prefix p s"
  by (induction s p rule: startsWith.induct) auto

lemma indexOf_from_sublist:
  "i > -1 \<Longrightarrow> indexOf_from i s sub > -1 \<longleftrightarrow> sublist sub s"
proof (induction i s sub rule: indexOf_from.induct)
  case (1 i sub)
  then show ?case by auto
next
  case (2 i c cs sub)
  then show ?case
    by (auto simp: startsWith_prefix sublist_Cons_right)
qed

lemma indexOf_sublist: "indexOf s sub > -1 \<longleftrightarrow> sublist sub s"
  using indexOf_from_sublist[of 0 s sub] by (simp add: indexOf_def)

lemma ifhas_iff: "ifhas imgRow dirFile \<longleftrightarrow> (\<exists>r \<in> set imgRow. sublist dirFile r)"
  by (induction imgRow) (auto simp: indexOf_sublist)

lemma notNeedFiles_filter:
  "notNeedFiles dir imgRow dirFiles =
     map (\<lambda>e. dir @ path_sep @ e)
       (filter (\<lambda>e. \<not> (\<exists>r \<in> set imgRow. sublist e r)) dirFiles)"
  by (induction dirFiles) (auto simp: ifhas_iff)

text \<open>
  C7. When the asset directory exists and there is no reference, the one
  deletion candidate is the directory itself. Otherwise the candidates are
  the paths of exactly those entries of the directory whose name is a
  contiguous part of no reference (none when there is no such directory).
  Where a file that is no directory has the name of the asset directory,
  listing it fails.
\<close>

theorem deletion_candidates:
  "checkImgAndDelete_from files filePath imgRow =
     (case files (asset_dir filePath) of
        None \<Rightarrow> Inr []
      | Some (Dir entries) \<Rightarrow>
          Inr (if imgRow = [] then [asset_dir filePath]
               else map (\<lambda>e. asset_dir filePath @ path_sep @ e)
                      (filter (\<lambda>e. \<not> (\<exists>r \<in> set imgRow. sublist e r)) entries))
      | Some (File content) \<Rightarrow>
          (if imgRow = [] then Inr [asset_dir filePath] else Inl ENOTDIR))"
  by (simp add: checkImgAndDelete_from_def existsSync_def readdirSync_def notNeedFiles_filter Let_def
        split: option.splits fsnode.splits)

theorem deletion_candidates_witness:
  "checkImgAndDelete_from
       [js ''/d/n.assets'' \<mapsto> Dir [js ''a.png'', js ''b.png'', js ''c.png'']]
       (js ''/d/n.md'') [js ''a.png'']
     = Inr [js ''/d/n.assets/b.png'', js ''/d/n.assets/c.png'']
   \<and> checkImgAndDelete_from
       [js ''/d/n.assets'' \<mapsto> Dir [js ''a.png'', js ''b.png'', js ''c.png'']]
       (js ''/d/n.md'') []
     = Inr [js ''/d/n.assets'']"
proof -
  let ?files = "[js ''/d/n.assets'' \<mapsto> Dir [js ''a.png'', js ''b.png'', js ''c.png'']]"
  let ?entries = "[js ''a.png'', js ''b.png'', js ''c.png'']"
  have d: "?files (asset_dir (js ''/d/n.md'')) = Some (Dir ?entries)"
    by (simp add: string_eval)
  have s: "sublist (js ''a.png'') (js ''a.png'')"
          "\<not> sublist (js ''b.png'') (js ''a.png'')"
          "\<not> sublist (js ''c.png'') (js ''a.png'')"
    by (simp_all add: indexOf_sublist[symmetric] string_eval)
  show ?thesis
    using deletion_candidates[of ?files "js ''/d/n.md''" "[js ''a.png'']"]
          deletion_candidates[of ?files "js ''/d/n.md''" "[]"] d s
    by (simp add: string_eval)
qed

text \<open>
  C8. The asset directory should be the pathname without its extension,
  followed by \<open>.assets\<close>. The code replaces the first occurrence of \<open>.mde\<close>
  and then the first occurrence of \<open>.md\<close> anywhere in the pathname instead:
  for \<open>/srv/www.mdn.org/readme.md\<close> it yields
  \<open>/srv/www.assetsn.org/readme.md\<close>, and for \<open>/docs/notes.markdown\<close> the
  document itself.
\<close>

theorem asset_dir_first_occurrence:
  "asset_dir (js ''/srv/www.mdn.org/readme.md'') = js ''/srv/www.assetsn.org/readme.md''
   \<and> asset_dir_spec (js ''/srv/www.mdn.org/readme.md'') = js ''/srv/www.mdn.org/readme.assets''
   \<and> asset_dir (js ''/docs/notes.markdown'') = js ''/docs/notes.markdown''
   \<and> asset_dir_spec (js ''/docs/notes.markdown'') = js ''/docs/notes.assets''"
  by (simp add: string_eval asset_dir_spec_def)

section \<open>The cipher: byte-level lemmas\<close>

lemma xor_bytes_length: "length (xor_bytes a b) = min (length a) (length b)"
  by (simp add: xor_bytes_def)

lemma xor_bytes_cancel: "length a = length b \<Longrightarrow> xor_bytes (xor_bytes a b) b = a"
proof (induction a arbitrary: b)
  case Nil
  then show ?case by (simp add: xor_bytes_def)
next
  case (Cons x xs)
  then obtain y ys where "b = y # ys" by (cases b) auto
  with Cons show ?case by (simp add: xor_bytes_def xor.assoc)
qed

subsection \<open>AES-128: decryption undoes encryption\<close>

lemma xtime_xor: "xtime (a XOR b) = xtime a XOR xtime b"
  by (simp add: xtime_def bit_xor_iff push_bit_xor xor.assoc xor.left_commute xor.commute)

lemma mix_column_inverse:
  "mix_column a b c d = [p, q, r, s] \<Longrightarrow> inv_mix_column p q r s = [a, b, c, d]"
  by (auto simp: mix_column_def inv_mix_column_def mul9_def mul11_def mul13_def mul14_def xtime_xor
        xor.assoc xor.left_commute xor.commute)

lemma sbox_table_inverse:
  "list_all (\<lambda>n. inv_sbox (sbox (of_nat n)) = (of_nat n :: byte)) [0..<256]"
  by code_simp

lemma inv_sbox_sbox: "inv_sbox (sbox b) = b"
proof -
  have "unat b < 256" using unsigned_less[of b, where 'a = nat] by simp
  then have "unat b \<in> set [0..<256]" by simp
  with sbox_table_inverse have "inv_sbox (sbox (of_nat (unat b))) = (of_nat (unat b) :: byte)"
    unfolding list_all_iff by blast
  then show ?thesis by simp
qed

lemma inv_sub_bytes_sub_bytes: "inv_sub_bytes (sub_bytes s) = s"
  by (simp add: inv_sub_bytes_def sub_bytes_def inv_sbox_sbox comp_def)

lemma length_sub_bytes: "length (sub_bytes s) = length s"
  by (simp add: sub_bytes_def)

lemma length16:
  "length s = 16 \<Longrightarrow>
     \<exists>s0 s1 s2 s3 s4 s5 s6 s7 s8 s9 s10 s11 s12 s13 s14 s15.
       s = [s0, s1, s2, s3, s4, s5, s6, s7, s8, s9, s10, s11, s12, s13, s14, s15]"
  by (auto simp: length_Suc_conv eval_nat_numeral)

lemma inv_shift_rows_shift_rows: "length s = 16 \<Longrightarrow> inv_shift_rows (shift_rows s) = s"
  by (drule length16) auto

lemma length_shift_rows: "length s = 16 \<Longrightarrow> length (shift_rows s) = 16"
  by (drule length16) auto

lemma inv_mix_columns_mix_columns: "inv_mix_columns (mix_columns s) = s"
proof (induction s rule: mix_columns.induct)
  case (1 a b c d rest)
  obtain p q r t where m: "mix_column a b c d = [p, q, r, t]"
    by (simp add: mix_column_def)
  from mix_column_inverse[OF m] m 1 show ?case by simp
qed simp_all

lemma length_mix_columns: "length (mix_columns s) = length s"
  by (induction s rule: mix_columns.induct) (simp_all add: mix_column_def)

lemma length_next_round_key: "length k = 16 \<Longrightarrow> length (next_round_key rc k) = 16"
  by (drule length16) (auto simp: xor_bytes_def Let_def)

lemma key_schedule_lengths: "length k = 16 \<Longrightarrow> \<forall>rk \<in> set (key_schedule rcs k). length rk = 16"
proof (induction rcs arbitrary: k)
  case Nil
  then show ?case by simp
next
  case (Cons rc rcs)
  have n: "length (next_round_key rc k) = 16"
    using Cons.prems by (rule length_next_round_key)
  from Cons.IH[OF n] n show ?case by simp
qed

lemma length_key_schedule: "length (key_schedule rcs k) = length rcs"
  by (induction rcs arbitrary: k) auto

lemma length_aes_round: "length s = 16 \<Longrightarrow> length rk = 16 \<Longrightarrow> length (aes_round rk s) = 16"
  by (simp add: aes_round_def xor_bytes_length length_mix_columns length_shift_rows length_sub_bytes)

lemma aes_inv_round_round:
  "length s = 16 \<Longrightarrow> length rk = 16 \<Longrightarrow> aes_inv_round rk (aes_round rk s) = s"
  by (simp add: aes_round_def aes_inv_round_def xor_bytes_cancel length_mix_columns length_shift_rows
        length_sub_bytes inv_mix_columns_mix_columns inv_shift_rows_shift_rows inv_sub_bytes_sub_bytes)

lemma length_aes_rounds:
  "length s = 16 \<Longrightarrow> \<forall>rk \<in> set rks. length rk = 16 \<Longrightarrow> length (aes_rounds rks s) = 16"
  by (induction rks arbitrary: s) (auto simp: length_aes_round)

lemma aes_inv_rounds_rounds:
  "length s = 16 \<Longrightarrow> \<forall>rk \<in> set rks. length rk = 16 \<Longrightarrow> aes_inv_rounds rks (aes_rounds rks s) = s"
  by (induction rks arbitrary: s) (auto simp: length_aes_round aes_inv_round_round)

lemma length_aes128_encrypt_block:
  assumes "length key = 16" "length blk = 16"
  shows "length (aes128_encrypt_block key blk) = 16"
proof -
  let ?rks = "key_schedule rcon key"
  have k: "\<forall>rk \<in> set ?rks. length rk = 16" using assms(1) by (rule key_schedule_lengths)
  have n: "length ?rks = 10" by (simp add: length_key_schedule rcon_def)
  then have k9: "length (?rks ! 9) = 16" using k by (simp add: all_set_conv_all_nth)
  have t: "\<forall>rk \<in> set (take 9 ?rks). length rk = 16" using k by (auto dest: in_set_takeD)
  have "length (aes_rounds (take 9 ?rks) (xor_bytes blk key)) = 16"
    using t assms by (intro length_aes_rounds) (simp_all add: xor_bytes_length)
  then show ?thesis
    using k9 by (simp add: aes128_encrypt_block_def Let_def xor_bytes_length length_shift_rows length_sub_bytes)
qed

lemma aes128_decrypt_encrypt:
  assumes "length key = 16" "length blk = 16"
  shows "aes128_decrypt_block key (aes128_encrypt_block key blk) = blk"
proof -
  let ?rks = "key_schedule rcon key"
  let ?s = "aes_rounds (take 9 ?rks) (xor_bytes blk key)"
  have k: "\<forall>rk \<in> set ?rks. length rk = 16" using assms(1) by (rule key_schedule_lengths)
  have n: "length ?rks = 10" by (simp add: length_key_schedule rcon_def)
  then have k9: "length (?rks ! 9) = 16" using k by (simp add: all_set_conv_all_nth)
  have t: "\<forall>rk \<in> set (take 9 ?rks). length rk = 16" using k by (auto dest: in_set_takeD)
  have x: "length (xor_bytes blk key) = 16" using assms by (simp add: xor_bytes_length)
  have s: "length ?s = 16" using x t by (rule length_aes_rounds)
  have f: "length (shift_rows (sub_bytes ?s)) = length (?rks ! 9)"
    using s k9 by (simp add: length_shift_rows length_sub_bytes)
  have "inv_sub_bytes (inv_shift_rows (xor_bytes (xor_bytes (shift_rows (sub_bytes ?s)) (?rks ! 9)) (?rks ! 9))) = ?s"
    using s by (simp add: xor_bytes_cancel[OF f] inv_shift_rows_shift_rows length_sub_bytes inv_sub_bytes_sub_bytes)
  moreover have "aes_inv_rounds (take 9 ?rks) ?s = xor_bytes blk key"
    using x t by (rule aes_inv_rounds_rounds)
  moreover have "xor_bytes (xor_bytes blk key) key = blk"
    using assms by (intro xor_bytes_cancel) simp
  ultimately show ?thesis
    by (simp add: aes128_decrypt_block_def aes128_encrypt_block_def Let_def)
qed

lemma cbc_encrypt_length:
  "\<forall>b. length b = 16 \<longrightarrow> length (E b) = 16 \<Longrightarrow> length ch = 16 \<Longrightarrow>
     length (cbc_encrypt E ch input) = length input - length input mod 16"
proof (induction E ch input rule: cbc_encrypt.induct)
  case (1 E ch input)
  note assms = 1(2)
  show ?case
  proof (cases "length input < 16")
    case True
    then show ?thesis by (simp add: cbc_encrypt.simps)
  next
    case False
    let ?c = "E (xor_bytes (take 16 input) ch)"
    from False 1(3) have lc: "length ?c = 16"
      using assms by (simp add: xor_bytes_length)
    have "length (cbc_encrypt E ?c (drop 16 input)) = length (drop 16 input) - length (drop 16 input) mod 16"
      using 1(1)[OF False refl assms lc] .
    moreover have "(length input - 16) mod 16 = length input mod 16"
      using False by (simp add: le_mod_geq)
    moreover have "cbc_encrypt E ch input = ?c @ cbc_encrypt E ?c (drop 16 input)"
      using False by (subst cbc_encrypt.simps) (simp add: Let_def)
    ultimately show ?thesis
      using False lc by simp
  qed
qed

lemma cbc_roundtrip:
  "\<forall>b. length b = 16 \<longrightarrow> length (E b) = 16 \<and> D (E b) = b \<Longrightarrow> length ch = 16 \<Longrightarrow>
     cbc_decrypt D ch (cbc_encrypt E ch input) = take (length input - length input mod 16) input"
proof (induction E ch input rule: cbc_encrypt.induct)
  case (1 E ch input)
  note assms = 1(2)
  show ?case
  proof (cases "length input < 16")
    case True
    then show ?thesis by (simp add: cbc_encrypt.simps cbc_decrypt.simps)
  next
    case False
    let ?x = "xor_bytes (take 16 input) ch"
    let ?c = "E ?x"
    from False 1(3) have lx: "length ?x = 16" by (simp add: xor_bytes_length)
    with assms have lc: "length ?c = 16" and dc: "D ?c = ?x" by auto
    have ih: "cbc_decrypt D ?c (cbc_encrypt E ?c (drop 16 input))
                = take (length (drop 16 input) - length (drop 16 input) mod 16) (drop 16 input)"
      using 1(1)[OF False refl assms lc] .
    have m: "(length input - 16) mod 16 = length input mod 16"
      using False by (simp add: le_mod_geq)
    have e: "cbc_encrypt E ch input = ?c @ cbc_encrypt E ?c (drop 16 input)"
      using False by (subst cbc_encrypt.simps) (simp add: Let_def)
    have x: "xor_bytes ?x ch = take 16 input"
      using False 1(3) by (intro xor_bytes_cancel) simp
    have "cbc_decrypt D ch (?c @ cbc_encrypt E ?c (drop 16 input))
            = take 16 input @ take (length input - 16 - length input mod 16) (drop 16 input)"
      using lc dc x ih m by (subst cbc_decrypt.simps) (simp add: Let_def)
    also have "\<dots> = take (length input - length input mod 16) input"
    proof -
      have "length input - length input mod 16 = 16 + (length input - 16 - length input mod 16)"
      proof -
        have "length input mod 16 \<le> length input - 16"
          using mod_less_eq_dividend[of "length input - 16" 16] m by simp
        with False show ?thesis by arith
      qed
      then have "take (length input - length input mod 16) input
                   = take 16 input @ take (length input - 16 - length input mod 16) (drop 16 input)"
        by (simp only: take_add)
      then show ?thesis by simp
    qed
    finally show ?thesis by (simp only: e)
  qed
qed

subsection \<open>Base64\<close>

lemma unat_jschar_of_nat: "n < 65536 \<Longrightarrow> unat (of_nat n :: jschar) = n"
  by (simp add: unat_of_nat)

lemma unat_byte_of_nat: "n < 256 \<Longrightarrow> unat (of_nat n :: byte) = n"
  by (simp add: unat_of_nat)

lemma unat_base64_char:
  "i < 64 \<Longrightarrow> unat (base64_char i) =
     (if i < 26 then 65 + i else if i < 52 then 97 + (i - 26) else if i < 62 then 48 + (i - 52)
      else if i = 62 then 0x2B else 0x2F)"
  unfolding base64_char_def
  by (simp add: unat_jschar_of_nat del: of_nat_add of_nat_numeral of_nat_diff)

lemma low_byte_base64_char: "i < 64 \<Longrightarrow> low_byte (base64_char i) = unat (base64_char i)"
  by (simp add: low_byte_def unat_base64_char)

lemma base64_char_not_equals: "i < 64 \<Longrightarrow> low_byte (base64_char i) \<noteq> 0x3D"
  by (auto simp: low_byte_base64_char unat_base64_char)

lemma low_byte_EQUALS: "low_byte EQUALS = 0x3D"
  by (simp add: low_byte_def)

lemma unbase64_base64_char: "i < 64 \<Longrightarrow> unbase64 (base64_char i) = i"
  by (auto simp: unbase64_def low_byte_base64_char unat_base64_char Let_def)

lemma base64_groups_roundtrip:
  "\<forall>n \<in> set ns. n < 256 \<Longrightarrow>
     unbase64_groups (filter (\<lambda>v. v < 64) (map unbase64 (takeWhile (\<lambda>c. low_byte c \<noteq> 0x3D) (base64_groups ns)))) = ns"
proof (induction ns rule: base64_groups.induct)
  case 1
  then show ?case by simp
next
  case (2 a)
  then have a: "a < 256" by simp
  then have "a div 4 < 64" "a mod 4 * 16 < 64" by auto
  then show ?case using a
    by (simp add: base64_char_not_equals unbase64_base64_char low_byte_EQUALS)
next
  case (3 a b)
  then have ab: "a < 256" "b < 256" by simp_all
  then have "a div 4 < 64" "a mod 4 * 16 + b div 16 < 64" "b mod 16 * 4 < 64" by auto
  then show ?case using ab
    by (simp add: base64_char_not_equals unbase64_base64_char low_byte_EQUALS)
next
  case (4 a b c rest)
  then have abc: "a < 256" "b < 256" "c < 256" by simp_all
  then have "a div 4 < 64" "a mod 4 * 16 + b div 16 < 64" "b mod 16 * 4 + c div 64 < 64" "c mod 64 < 64" by auto
  moreover have "\<forall>n\<in>set rest. n < 256" using 4(2) by simp
  ultimately show ?case using 4(1) abc
    by (simp add: base64_char_not_equals unbase64_base64_char low_byte_EQUALS)
qed


lemma map_of_nat_unat: "map of_nat (map unat buf) = (buf :: buffer)"
  by (induction buf) simp_all

lemma unat_byte_less: "unat (b :: byte) < 256"
  using unsigned_less[of b, where 'a = nat] by simp

lemma base64_roundtrip: "base64_decode (base64_encode buf) = buf"
proof -
  have "\<forall>n \<in> set (map unat buf). n < 256"
    by (simp add: unat_byte_less)
  then have "unbase64_groups (filter (\<lambda>v. v < 64) (map unbase64
               (takeWhile (\<lambda>c. low_byte c \<noteq> 0x3D) (base64_groups (map unat buf))))) = map unat buf"
    by (rule base64_groups_roundtrip)
  then show ?thesis
    unfolding base64_decode_def base64_encode_def
    by (simp only: map_of_nat_unat)
qed

lemma pkcs7_pad_length: "length (pkcs7_pad m) = length m + (16 - length m mod 16)"
  by (simp add: pkcs7_pad_def Let_def)

lemma pkcs7_pad_mod: "length (pkcs7_pad m) mod 16 = 0"
proof -
  have "length m = 16 * (length m div 16) + length m mod 16" by simp
  moreover have "length m mod 16 < 16" by simp
  ultimately have "length m + (16 - length m mod 16) = 16 * (length m div 16 + 1)" by arith
  then show ?thesis by (simp only: pkcs7_pad_length mod_mult_self1_is_0)
qed

subsection \<open>Padding, and \<open>update\<close> followed by \<open>final\<close>\<close>

lemma unat_byte_of_nat16: "n \<le> 16 \<Longrightarrow> unat (of_nat n :: byte) = n"
  by (simp add: unat_of_nat)

lemma pkcs7_unpad_tail:
  assumes "length m < 16"
  shows "pkcs7_unpad (pkcs7_pad m) = Inr m"
proof -
  let ?n = "16 - length m"
  have n: "0 < ?n" "?n \<le> 16" using assms by auto
  have p: "pkcs7_pad m = m @ replicate ?n (of_nat ?n)"
    using assms by (simp add: pkcs7_pad_def Let_def)
  have l: "last (pkcs7_pad m) = (of_nat ?n :: byte)"
    using n by (simp add: p)
  have u: "unat (of_nat ?n :: byte) = ?n"
    using n by (intro unat_byte_of_nat16) simp
  show ?thesis
    unfolding pkcs7_unpad_def l u Let_def
    using n assms by (simp add: p)
qed

lemma pkcs7_pad_split:
  "pkcs7_pad m = take (length m - length m mod 16) m @ pkcs7_pad (drop (length m - length m mod 16) m)"
proof -
  have "length (drop (length m - length m mod 16) m) = length m mod 16"
    by (simp add: mod_less_eq_dividend)
  then show ?thesis
    by (simp add: pkcs7_pad_def Let_def)
qed


lemma last_block_16: "length c = 16 \<Longrightarrow> last_block c = c"
  by (simp add: last_block_def)

lemma last_block_append: "16 \<le> length b \<Longrightarrow> last_block (a @ b) = last_block b"
  by (simp add: last_block_def)

lemma cbc_encrypt_unfold:
  "\<not> length input < 16 \<Longrightarrow>
     cbc_encrypt E ch input
       = E (xor_bytes (take 16 input) ch) @ cbc_encrypt E (E (xor_bytes (take 16 input) ch)) (drop 16 input)"
  by (subst cbc_encrypt.simps) (simp add: Let_def)

lemma cbc_encrypt_short: "length input < 16 \<Longrightarrow> cbc_encrypt E ch input = []"
  by (subst cbc_encrypt.simps) simp

lemma pkcs7_pad_take16: "16 \<le> length m \<Longrightarrow> take 16 (pkcs7_pad m) = take 16 m"
  by (simp add: pkcs7_pad_def Let_def)

lemma pkcs7_pad_drop16: "16 \<le> length m \<Longrightarrow> drop 16 (pkcs7_pad m) = pkcs7_pad (drop 16 m)"
  by (simp add: pkcs7_pad_def Let_def le_mod_geq)

lemma update_final_is_cbc_of_padded:
  "\<forall>b. length b = 16 \<longrightarrow> length (E b) = 16 \<Longrightarrow> length ch = 16 \<Longrightarrow>
     cbc_encrypt E ch m
       @ cbc_encrypt E (if cbc_encrypt E ch m = [] then ch else last_block (cbc_encrypt E ch m))
           (pkcs7_pad (drop (length m - length m mod 16) m))
     = cbc_encrypt E ch (pkcs7_pad m)"
proof (induction E ch m rule: cbc_encrypt.induct)
  case (1 E ch m)
  note len = 1(2)
  show ?case
  proof (cases "length m < 16")
    case True
    then show ?thesis by (simp add: cbc_encrypt_short)
  next
    case False
    let ?c = "E (xor_bytes (take 16 m) ch)"
    let ?o = "cbc_encrypt E ?c (drop 16 m)"
    from False 1(3) len have lc: "length ?c = 16" by (simp add: xor_bytes_length)
    have ih: "?o @ cbc_encrypt E (if ?o = [] then ?c else last_block ?o)
                     (pkcs7_pad (drop (length (drop 16 m) - length (drop 16 m) mod 16) (drop 16 m)))
              = cbc_encrypt E ?c (pkcs7_pad (drop 16 m))"
      using 1(1)[OF False refl len lc] .
    have m: "(length m - 16) mod 16 = length m mod 16"
      using False by (simp add: le_mod_geq)
    have r: "length m mod 16 \<le> length m - 16"
      using mod_less_eq_dividend[of "length m - 16" 16] m by simp
    have dd: "drop (length (drop 16 m) - length (drop 16 m) mod 16) (drop 16 m)
                = drop (length m - length m mod 16) m"
    proof -
      have "length m - 16 - length m mod 16 + 16 = length m - length m mod 16"
        using False r by arith
      then show ?thesis by (simp add: m)
    qed
    have lo: "?o \<noteq> [] \<Longrightarrow> 16 \<le> length ?o"
    proof -
      assume "?o \<noteq> []"
      moreover have "length ?o = length (drop 16 m) - length (drop 16 m) mod 16"
        using len lc by (rule cbc_encrypt_length)
      ultimately have "length (drop 16 m) - length (drop 16 m) mod 16 \<noteq> 0" by auto
      then have "\<not> length (drop 16 m) < 16" by auto
      then have "16 \<le> length (drop 16 m) - length (drop 16 m) mod 16"
        using mod_less_eq_dividend[of "length (drop 16 m) - 16" 16]
        by (simp add: le_mod_geq not_less)
      with \<open>length ?o = _\<close> show ?thesis by simp
    qed
    have ch': "(if ?c @ ?o = [] then ch else last_block (?c @ ?o))
                 = (if ?o = [] then ?c else last_block ?o)"
      using lc lo by (auto simp: last_block_16 last_block_append)
    have lhs: "cbc_encrypt E ch m = ?c @ ?o"
      using False by (rule cbc_encrypt_unfold)
    have lp: "\<not> length (pkcs7_pad m) < 16"
      using False by (simp add: pkcs7_pad_length)
    have rhs: "cbc_encrypt E ch (pkcs7_pad m) = ?c @ cbc_encrypt E ?c (pkcs7_pad (drop 16 m))"
      using False cbc_encrypt_unfold[OF lp, of E ch]
      by (simp add: pkcs7_pad_take16 pkcs7_pad_drop16)
    show ?thesis
      unfolding lhs rhs ch' using ih dd by simp
  qed
qed


lemma take_all_but_suffix: "length b = n \<Longrightarrow> take (length (a @ b) - n) (a @ b) = a"
  by simp

lemma hex_decode_mm: "hex_decode mm = [0x15, 0x70, 0x16, 0xad, 0x77, 0xa8, 0xf1, 0x2f, 0xe2, 0x76, 0xdb, 0x44, 0x22, 0x6b, 0x35, 0x2e]"
  by (simp add: mm_def js_def hex_digit_def)

lemma length_hex_decode_mm: "length (hex_decode mm) = 16"
  by (simp add: hex_decode_mm)

lemma aesEncryptiv_cbc:
  assumes "\<forall>b. length b = 16 \<longrightarrow> length (block_encrypt cr (hex_decode key) b) = 16"
    and "length (hex_decode key) = 16"
  shows "aesEncryptiv cr str key =
           Inr (base64_encode (cbc_encrypt (block_encrypt cr (hex_decode key)) (hex_decode key)
                                 (pkcs7_pad (utf8_encode str))))"
proof -
  let ?E = "block_encrypt cr (hex_decode key)"
  let ?o = "cbc_encrypt ?E (hex_decode key) (utf8_encode str)"
  show ?thesis
    using update_final_is_cbc_of_padded[OF assms, of "utf8_encode str"] assms(2)
    by (cases "?o = []")
       (simp_all add: aesEncryptiv_def createCipheriv_def cipher_update_def cipher_final_def Let_def)
qed

lemma aesDecryptiv_of_cbc:
  assumes "\<forall>b. length b = 16 \<longrightarrow> length (E b) = 16 \<and> D (E b) = b"
    and "E = block_encrypt cr (hex_decode key)" and "D = block_decrypt cr (hex_decode key)"
    and "length (hex_decode key) = 16"
  shows "aesDecryptiv cr (base64_encode (cbc_encrypt E (hex_decode key) (pkcs7_pad m))) key
           = Inr (utf8_decode m)"
proof -
  let ?K = "hex_decode key"
  let ?P = "pkcs7_pad m"
  let ?C = "cbc_encrypt E ?K ?P"
  let ?k = "length m - length m mod 16"
  have lenE: "\<forall>b. length b = 16 \<longrightarrow> length (E b) = 16" using assms(1) by simp
  have lC: "length ?C = length ?P"
    using cbc_encrypt_length[OF lenE assms(4), of ?P] by (simp add: pkcs7_pad_mod)
  have lP: "16 \<le> length ?P" "length ?P mod 16 = 0"
  proof -
    show "length ?P mod 16 = 0" by (rule pkcs7_pad_mod)
    have "0 < length ?P" by (simp add: pkcs7_pad_length)
    with \<open>length ?P mod 16 = 0\<close> show "16 \<le> length ?P"
      by (metis mod_less not_less neq0_conv)
  qed
  have ne: "?C \<noteq> []" using lC lP by auto
  have plain: "cbc_decrypt D ?K ?C = ?P"
    using cbc_roundtrip[OF assms(1) assms(4), of ?P] lP by simp
  have tail: "length (drop ?k m) < 16" by (simp add: mod_less_eq_dividend)
  have ltp: "length (pkcs7_pad (drop ?k m)) = 16"
    using tail by (simp add: pkcs7_pad_length)
  have split: "?P = take ?k m @ pkcs7_pad (drop ?k m)" by (rule pkcs7_pad_split)
  have lb: "last_block ?P = pkcs7_pad (drop ?k m)"
    by (subst split) (simp add: last_block_append ltp last_block_16)
  have front: "take (length ?P - 16) ?P = take ?k m"
    using take_all_but_suffix[OF ltp, of "take ?k m"] split by simp
  have unpad: "pkcs7_unpad (last_block ?P) = Inr (drop ?k m)"
    unfolding lb using tail by (rule pkcs7_unpad_tail)
  show ?thesis
    using ne lC lP plain front unpad assms(2,3,4)
    by (simp add: aesDecryptiv_def createDecipheriv_def createCipheriv_def decipher_update_def
          decipher_final_def base64_roundtrip Let_def)
qed

lemma aes_roundtrip_bytes:
  assumes "proper_cipher cr (hex_decode key)" and "length (hex_decode key) = 16"
    and "aesEncryptiv cr str key = Inr c"
  shows "aesDecryptiv cr c key = Inr (utf8_decode (utf8_encode str))"
proof -
  let ?E = "block_encrypt cr (hex_decode key)"
  let ?D = "block_decrypt cr (hex_decode key)"
  have p: "\<forall>b. length b = 16 \<longrightarrow> length (?E b) = 16 \<and> ?D (?E b) = b"
    using assms(1) by (simp add: proper_cipher_def)
  then have "\<forall>b. length b = 16 \<longrightarrow> length (?E b) = 16" by simp
  from aesEncryptiv_cbc[OF this assms(2), of str] assms(3)
  have "c = base64_encode (cbc_encrypt ?E (hex_decode key) (pkcs7_pad (utf8_encode str)))" by simp
  with aesDecryptiv_of_cbc[OF p refl refl assms(2), of "utf8_encode str"] show ?thesis by simp
qed

subsection \<open>UTF-8\<close>

lemma mod64_le: "(u::nat) mod 64 \<le> 63"
  using mod_less_divisor[of 64 u] by simp

lemma run_ascii: "u < 0x80 \<Longrightarrow> utf8_run utf8_start (u # bs) = of_nat u # utf8_run utf8_start bs"
  by (simp add: utf8_start_def)

lemma run_two:
  assumes "0x80 \<le> u" "u < 0x800"
  shows "utf8_run utf8_start ((0xC0 + u div 64) # (0x80 + u mod 64) # bs)
           = of_nat u # utf8_run utf8_start bs"
proof -
  have a: "2 \<le> u div 64" "u div 64 < 32"
    using assms by (auto simp: less_mult_imp_div_less le_div_geq)
  then show ?thesis
    using assms mod64_le[of u]
    by (simp add: utf8_start_def utf16_of_codepoint_def)
qed

lemma run_three:
  assumes "0x800 \<le> u" "u < 0x10000" "u < 0xD800 \<or> 0xE000 \<le> u"
  shows "utf8_run utf8_start
           ((0xE0 + u div 4096) # (0x80 + (u div 64) mod 64) # (0x80 + u mod 64) # bs)
           = of_nat u # utf8_run utf8_start bs"
proof -
  have d: "u div 4096 = u div 64 div 64"
    by (simp add: div_mult2_eq[symmetric])
  have a: "u div 4096 < 16"
    using assms by (simp add: less_mult_imp_div_less)
  have lo: "u div 4096 = 0 \<Longrightarrow> 32 \<le> (u div 64) mod 64"
  proof -
    assume z: "u div 4096 = 0"
    then have "u div 64 < 64" unfolding d by (simp add: div_eq_0_iff)
    moreover have "32 \<le> u div 64" using assms(1) by (simp add: le_div_geq)
    ultimately show ?thesis by simp
  qed
  have hi: "u div 4096 = 13 \<Longrightarrow> (u div 64) mod 64 \<le> 31"
  proof -
    assume z: "u div 4096 = 13"
    then have "0xD000 \<le> u \<and> u < 0xE000" by arith
    with assms(3) have "u < 0xD800" by simp
    then have "u div 64 < 864" by (simp add: less_mult_imp_div_less)
    moreover have "u div 64 = 13 * 64 + (u div 64) mod 64"
      using z d div_mult_mod_eq[of "u div 64" 64] by simp
    ultimately show ?thesis by arith
  qed
  have cp: "(u div 4096 * 64 + (u div 64) mod 64) * 64 + u mod 64 = u"
    unfolding d by simp
  show ?thesis
    using assms a lo hi mod64_le[of u] mod64_le[of "u div 64"] cp
    by (auto simp: utf8_start_def utf16_of_codepoint_def)
qed


lemma run_four:
  assumes "0x10000 \<le> u" "u < 0x110000"
  shows "utf8_run utf8_start
           ((0xF0 + u div 262144) # (0x80 + (u div 4096) mod 64) # (0x80 + (u div 64) mod 64)
              # (0x80 + u mod 64) # bs)
           = utf16_of_codepoint u @ utf8_run utf8_start bs"
proof -
  have d: "u div 4096 = u div 64 div 64" "u div 262144 = u div 64 div 64 div 64"
    by (simp_all add: div_mult2_eq[symmetric])
  have a: "u div 262144 \<le> 4"
    using assms by (simp add: less_mult_imp_div_less less_Suc_eq_le[symmetric])
  have lo: "u div 262144 = 0 \<Longrightarrow> 16 \<le> (u div 4096) mod 64"
  proof -
    assume z: "u div 262144 = 0"
    then have "u div 4096 < 64" unfolding d by (simp add: div_eq_0_iff)
    moreover have "16 \<le> u div 4096" using assms(1) by (simp add: le_div_geq)
    ultimately show ?thesis by simp
  qed
  have hi: "u div 262144 = 4 \<Longrightarrow> (u div 4096) mod 64 \<le> 15"
  proof -
    assume z: "u div 262144 = 4"
    have "u div 4096 < 272" using assms(2) by (simp add: less_mult_imp_div_less)
    moreover have "u div 4096 = 4 * 64 + (u div 4096) mod 64"
      using z d div_mult_mod_eq[of "u div 4096" 64] by simp
    ultimately show ?thesis by arith
  qed
  have cp: "((u div 262144 * 64 + (u div 4096) mod 64) * 64 + (u div 64) mod 64) * 64 + u mod 64 = u"
    unfolding d by simp
  show ?thesis
    using assms a lo hi mod64_le[of u] mod64_le[of "u div 64"] mod64_le[of "u div 4096"] cp
    by (auto simp: utf8_start_def)
qed


lemma unat_jschar_less: "unat (c :: jschar) < 65536"
  using unsigned_less[of c, where 'a = nat] by simp

lemma run_codepoint:
  assumes "u < 0xD800 \<or> 0xE000 \<le> u" "u < 0x110000"
  shows "utf8_run utf8_start (utf8_of_codepoint u @ bs) = utf16_of_codepoint u @ utf8_run utf8_start bs"
proof -
  consider "u < 0x80" | "0x80 \<le> u" "u < 0x800" | "0x800 \<le> u" "u < 0x10000" | "0x10000 \<le> u"
    by linarith
  then show ?thesis
  proof cases
    case 1
    then show ?thesis
      using run_ascii[of u bs] by (simp add: utf8_of_codepoint_def utf16_of_codepoint_def)
  next
    case 2
    then show ?thesis
      using run_two[of u bs] by (simp add: utf8_of_codepoint_def utf16_of_codepoint_def)
  next
    case 3
    then show ?thesis
      using run_three[of u bs] assms(1) by (simp add: utf8_of_codepoint_def utf16_of_codepoint_def)
  next
    case 4
    then show ?thesis
      using run_four[of u bs] assms(2) by (simp add: utf8_of_codepoint_def)
  qed
qed

lemma pair_codepoint:
  assumes "is_high_surrogate hi" "is_low_surrogate lo"
  shows "0x10000 \<le> codepoint_of_pair hi lo" "codepoint_of_pair hi lo < 0x110000"
    "utf16_of_codepoint (codepoint_of_pair hi lo) = [hi, lo]"
proof -
  let ?h = "unat hi - 0xD800" and ?l = "unat lo - 0xDC00"
  have h: "?h < 1024" "unat hi = 0xD800 + ?h" and l: "?l < 1024" "unat lo = 0xDC00 + ?l"
    using assms by (auto simp: is_high_surrogate_def is_low_surrogate_def)
  have cp: "codepoint_of_pair hi lo = 0x10000 + ?h * 1024 + ?l"
    by (simp add: codepoint_of_pair_def)
  show "0x10000 \<le> codepoint_of_pair hi lo" by (simp add: cp)
  show "codepoint_of_pair hi lo < 0x110000" using h(1) l(1) by (simp add: cp)
  have "(?h * 1024 + ?l) div 1024 = ?h" "(?h * 1024 + ?l) mod 1024 = ?l"
    using l(1) by simp_all
  then have "utf16_of_codepoint (codepoint_of_pair hi lo) = [of_nat (0xD800 + ?h), of_nat (0xDC00 + ?l)]"
    by (simp add: cp utf16_of_codepoint_def)
  also have "\<dots> = [hi, lo]"
    by (simp only: h(2)[symmetric] l(2)[symmetric] of_nat_unat unsigned_eq_0_iff ucast_id)
  finally show "utf16_of_codepoint (codepoint_of_pair hi lo) = [hi, lo]" .
qed

lemma utf8_run_units: "isWellFormed s \<Longrightarrow> utf8_run utf8_start (utf8_units s) = s"
proof (induction s rule: utf8_units.induct)
  case 1
  then show ?case by (simp add: utf8_start_def)
next
  case (2 c cs)
  show ?case
  proof (cases "is_high_surrogate c")
    case True
    with 2(4) obtain d ds where cs: "cs = d # ds" and low: "is_low_surrogate d" and wf: "isWellFormed ds"
      by (cases cs) auto
    have "utf8_run utf8_start (utf8_units ds) = ds"
      using 2(1) True cs low wf by simp
    then show ?thesis
      using True cs low pair_codepoint[OF True low]
      by (simp add: run_codepoint)
  next
    case False
    with 2(4) have nl: "\<not> is_low_surrogate c" and wf: "isWellFormed cs" by auto
    have ih: "utf8_run utf8_start (utf8_units cs) = cs"
      using 2(3) False nl wf by simp
    have u: "unat c < 0xD800 \<or> 0xE000 \<le> unat c"
      using False nl by (auto simp: is_high_surrogate_def is_low_surrogate_def)
    have "unat c < 0x110000" using unat_jschar_less[of c] by simp
    from run_codepoint[OF u this, of "utf8_units cs"] ih
    show ?thesis
      using False nl unat_jschar_less[of c] by (simp add: utf16_of_codepoint_def)
  qed
qed

lemma utf8_of_codepoint_bytes: "u < 0x110000 \<Longrightarrow> \<forall>b \<in> set (utf8_of_codepoint u). b < 256"
  using mod64_le[of u] mod64_le[of "u div 64"] mod64_le[of "u div 4096"]
  by (auto simp: utf8_of_codepoint_def less_mult_imp_div_less)


lemma utf8_units_bytes: "\<forall>b \<in> set (utf8_units s). b < 256"
proof (induction s rule: utf8_units.induct)
  case 1
  then show ?case by simp
next
  case (2 c cs)
  have "unat c < 0x110000" using unat_jschar_less[of c] by simp
  then have single: "\<forall>b \<in> set (utf8_of_codepoint (unat c)). b < 256"
    by (rule utf8_of_codepoint_bytes)
  show ?case
  proof (cases "is_high_surrogate c \<and> cs \<noteq> [] \<and> is_low_surrogate (hd cs)")
    case True
    then have "codepoint_of_pair c (hd cs) < 0x110000" by (simp add: pair_codepoint(2))
    then have "\<forall>b \<in> set (utf8_of_codepoint (codepoint_of_pair c (hd cs))). b < 256"
      by (rule utf8_of_codepoint_bytes)
    with True 2(1) show ?thesis by auto
  next
    case False
    with 2(2,3) single show ?thesis by auto
  qed
qed

lemma map_unat_of_nat_bytes:
  "\<forall>b \<in> set ns. b < 256 \<Longrightarrow> map unat (map of_nat ns :: buffer) = ns"
  by (induction ns) (simp_all add: unat_of_nat)

lemma utf8_decode_encode: "utf8_decode (utf8_encode s) = utf8_run utf8_start (utf8_units s)"
  by (simp only: utf8_decode_def utf8_encode_def map_unat_of_nat_bytes[OF utf8_units_bytes])

lemma utf8_roundtrip: "isWellFormed s \<Longrightarrow> utf8_decode (utf8_encode s) = s"
  by (simp only: utf8_decode_encode utf8_run_units)


section \<open>The secure extension\<close>

lemma proper_cipher_aes128: "length key = 16 \<Longrightarrow> proper_cipher (aes128_crypto r) key"
  by (simp add: proper_cipher_def aes128_crypto_def length_aes128_encrypt_block aes128_decrypt_encrypt)

lemma proper_cipher_crypto0: "proper_cipher crypto0 (hex_decode mm)"
  unfolding crypto0_def by (rule proper_cipher_aes128[OF length_hex_decode_mm])

text \<open>Three blocks under the process-wide key, computed step by step.\<close>

lemmas aes_eval = aes128_decrypt_block_def aes128_encrypt_block_def rcon_def Let_def xor_bytes_def
  aes_round_def aes_inv_round_def sub_bytes_def inv_sub_bytes_def mix_column_def inv_mix_column_def
  mul9_def mul11_def mul13_def mul14_def xtime_def sbox_def inv_sbox_def sbox_rows_def inv_sbox_rows_def

lemma aes128_decrypt_block_hi:
  "aes128_decrypt_block
     [0x15, 0x70, 0x16, 0xAD, 0x77, 0xA8, 0xF1, 0x2F, 0xE2, 0x76, 0xDB, 0x44, 0x22, 0x6B, 0x35, 0x2E]
     [0xFC, 0x8D, 0x42, 0xDF, 0xF0, 0xAB, 0x23, 0x9A, 0x8F, 0x44, 0x51, 0xA4, 0xDC, 0x57, 0x81, 0x4B]
   = [0x7D, 0x19, 0x18, 0xA3, 0x79, 0xA6, 0xFF, 0x21, 0xEC, 0x78, 0xD5, 0x4A, 0x2C, 0x65, 0x3B, 0x20]"
  by (simp add: aes_eval)

lemma aes128_encrypt_block_a:
  "aes128_encrypt_block
     [0x15, 0x70, 0x16, 0xAD, 0x77, 0xA8, 0xF1, 0x2F, 0xE2, 0x76, 0xDB, 0x44, 0x22, 0x6B, 0x35, 0x2E]
     [0x74, 0x7F, 0x19, 0xA2, 0x78, 0xA7, 0xFE, 0x20, 0xED, 0x79, 0xD4, 0x4B, 0x2D, 0x64, 0x3A, 0x21]
   = [0x74, 0xE7, 0xB2, 0x97, 0x20, 0x57, 0x14, 0x40, 0x43, 0x5B, 0x3E, 0x93, 0x30, 0x5D, 0xAD, 0xC3]"
  by (simp add: aes_eval)

lemma aes128_encrypt_block_replacement:
  "aes128_encrypt_block
     [0x15, 0x70, 0x16, 0xAD, 0x77, 0xA8, 0xF1, 0x2F, 0xE2, 0x76, 0xDB, 0x44, 0x22, 0x6B, 0x35, 0x2E]
     [0xFA, 0xCF, 0xAB, 0xA0, 0x7A, 0xA5, 0xFC, 0x22, 0xEF, 0x7B, 0xD6, 0x49, 0x2F, 0x66, 0x38, 0x23]
   = [0xBD, 0x70, 0x9D, 0xEE, 0x48, 0xFB, 0x21, 0xAE, 0x10, 0xA8, 0x4F, 0x19, 0xE9, 0x1D, 0x61, 0x5D]"
  by (simp add: aes_eval)

lemma aesEncryptiv_randomBytes:
  "aesEncryptiv (cr\<lparr>randomBytes := r\<rparr>) str key = aesEncryptiv cr str key"
  by (simp add: aesEncryptiv_def cipher_update_def cipher_final_def Let_def split: sum.splits)

lemma cbc_decrypt_short: "length input < 16 \<Longrightarrow> cbc_decrypt D ch input = []"
  by (subst cbc_decrypt.simps) simp

lemma cbc_decrypt_unfold:
  "\<not> length input < 16 \<Longrightarrow>
     cbc_decrypt D ch input
       = xor_bytes (D (take 16 input)) ch @ cbc_decrypt D (take 16 input) (drop 16 input)"
  by (subst cbc_decrypt.simps) (simp add: Let_def)

lemma replicate_numeral_unfold: "replicate (numeral k) x = x # replicate (pred_numeral k) x"
  by (simp add: numeral_eq_Suc)

lemmas cipher_eval = replicate_numeral_unfold Let_def crypto0_def aes128_crypto_def aesEncryptiv_def aesDecryptiv_def hex_decode_mm createCipheriv_def
  createDecipheriv_def cipher_update_def cipher_final_def decipher_update_def decipher_final_def
  cbc_encrypt_short cbc_encrypt_unfold cbc_decrypt_short cbc_decrypt_unfold
  pkcs7_pad_def pkcs7_unpad_def last_block_def xor_bytes_def
  base64_encode_def base64_decode_def base64_char_def unbase64_def low_byte_def

text \<open>
  C1, as the code has it. When the text of a file under the secure extension
  fails to decrypt, \<open>loadMarkdownFile\<close> raises no error: the exception is
  caught and dropped, and the load goes on with the decoded file text, the
  ciphertext, which becomes the content of the document (with its line
  endings normalised).
\<close>

theorem decrypt_failure_swallowed:
  assumes "readFile (fs env) (path_resolve env p) = Inr buffer"
    and "encodingExists env (encoding (guessEncoding env buffer guess))"
    and "endsWith p (js ''.mde'')"
    and "decoded = iconv_decode env buffer (encoding (guessEncoding env buffer guess))"
    and "aesDecryptiv (node_crypto env) decoded mm = Inl e"
  shows "\<exists>doc. loadMarkdownFile env p eol guess t = Inr doc
               \<and> markdown doc = convertLineEndings decoded (js ''lf'')"
proof -
  have d: "decrypt_on_load (node_crypto env) p decoded = decoded"
    using assms(3,5) by (simp add: decrypt_on_load_def)
  obtain doc where l: "loadMarkdownFile env p eol guess t = Inr doc"
    using assms(1,2) by (simp add: loadMarkdownFile_def Let_def)
  have "markdown doc = convertLineEndings decoded (js ''lf'')"
    using l assms(1,2,4) d
    by (auto simp: loadMarkdownFile_def Let_def convertLineEndings_lf replace_LINE_ENDING_REG_id
          js_lf_neq_crlf js_lf_neq_crlf[symmetric] split: if_splits)
  with l show ?thesis by blast
qed

theorem decrypt_failure_swallowed_witness:
  "\<exists>doc. loadMarkdownFile (utf8_env crypto0 [js ''/s.mde'' \<mapsto> File (utf8_encode (js ''hello''))])
            (js ''/s.mde'') (js ''lf'') True 2 = Inr doc
         \<and> markdown doc = convertLineEndings (js ''hello'') (js ''lf'')"
proof -
  let ?env = "utf8_env crypto0 [js ''/s.mde'' \<mapsto> File (utf8_encode (js ''hello''))]"
  have r: "readFile (fs ?env) (path_resolve ?env (js ''/s.mde'')) = Inr (utf8_encode (js ''hello''))"
    by (simp add: utf8_env_def readFile_def)
  have x: "encodingExists ?env (encoding (guessEncoding ?env (utf8_encode (js ''hello'')) True))"
    by (simp add: utf8_env_def)
  have e: "endsWith (js ''/s.mde'') (js ''.mde'')"
    by (simp add: string_eval)
  have d: "js ''hello'' = iconv_decode ?env (utf8_encode (js ''hello''))
                            (encoding (guessEncoding ?env (utf8_encode (js ''hello'')) True))"
    by (simp add: utf8_env_def string_eval utf8_eval)
  have f: "aesDecryptiv (node_crypto ?env) (js ''hello'') mm = Inl WrongFinalBlockLength"
    by (simp add: utf8_env_def string_eval cipher_eval)
  from decrypt_failure_swallowed[OF r x e d f] show ?thesis .
qed

text \<open>
  C1, as stated, fails: the file \<open>/s.mde\<close> with the text \<open>hello\<close> does not
  decrypt (three bytes of ciphertext are no whole block), and the load
  returns a document whose content is \<open>hello\<close>.
\<close>

theorem decrypt_failure_counterexample:
  "aesDecryptiv crypto0 (js ''hello'') mm = Inl WrongFinalBlockLength
   \<and> loadMarkdownFile (utf8_env crypto0 [js ''/s.mde'' \<mapsto> File (utf8_encode (js ''hello''))])
       (js ''/s.mde'') (js ''lf'') True 2
     = Inr \<lparr>markdown = js ''hello'', filename = js ''s.mde'', pathname = js ''/s.mde'',
            doc_encoding = \<lparr>encoding = js ''utf8'', isBom = False\<rparr>,
            lineEnding = js ''lf'', adjustLineEndingOnSave = False,
            trimTrailingNewline = 0, isMixedLineEndings = False\<rparr>"
  by (simp add: load_eval string_eval utf8_eval cipher_eval)

text \<open>
  C2, as the code has it. Whatever the state of the random generator, the
  ciphertext of a content string under the process-wide key is the Base64
  text of its padded UTF-8 bytes, encrypted block by block with the key bytes
  as the initialisation vector. No random value enters, two encryptions of
  the same content are identical, and the ciphertext has the length of the
  padded content: no initialisation vector is stored with it.
\<close>

theorem encryption_deterministic:
  assumes "proper_cipher cr (hex_decode mm)"
  shows "aesEncryptiv (cr\<lparr>randomBytes := r\<rparr>) str mm =
           Inr (base64_encode (cbc_encrypt (block_encrypt cr (hex_decode mm)) (hex_decode mm)
                                 (pkcs7_pad (utf8_encode str))))
       \<and> length (cbc_encrypt (block_encrypt cr (hex_decode mm)) (hex_decode mm)
                   (pkcs7_pad (utf8_encode str)))
           = length (utf8_encode str) + (16 - length (utf8_encode str) mod 16)"
proof -
  from assms have e: "\<forall>b. length b = 16 \<longrightarrow> length (block_encrypt cr (hex_decode mm) b) = 16"
    by (simp add: proper_cipher_def)
  have "length (cbc_encrypt (block_encrypt cr (hex_decode mm)) (hex_decode mm)
                  (pkcs7_pad (utf8_encode str)))
          = length (pkcs7_pad (utf8_encode str))"
    using cbc_encrypt_length[OF e length_hex_decode_mm, of "pkcs7_pad (utf8_encode str)"]
    by (simp add: pkcs7_pad_mod)
  with aesEncryptiv_cbc[OF e length_hex_decode_mm, of str] show ?thesis
    by (simp add: aesEncryptiv_randomBytes pkcs7_pad_length)
qed

theorem encryption_deterministic_witness:
  "aesEncryptiv (crypto0\<lparr>randomBytes := (\<lambda>n. replicate n 0xFF)\<rparr>) (js ''a'') mm
     = Inr (base64_encode (cbc_encrypt (block_encrypt crypto0 (hex_decode mm)) (hex_decode mm)
                                 (pkcs7_pad (utf8_encode (js ''a'')))))"
  using encryption_deterministic[OF proper_cipher_crypto0] by blast

text \<open>
  C2, as stated, fails: two encryptions of the content \<open>a\<close>, made with the
  random generator in two different states, give the same ciphertext.
\<close>

theorem encryption_repeats_counterexample:
  "aesEncryptiv (aes128_crypto (\<lambda>n. replicate n 0x00)) (js ''a'') mm
     = Inr (js ''dOeylyBXFEBDWz6TMF2tww=='')
   \<and> aesEncryptiv (aes128_crypto (\<lambda>n. replicate n 0xFF)) (js ''a'') mm
     = Inr (js ''dOeylyBXFEBDWz6TMF2tww=='')"
  by (simp add: string_eval utf8_eval cipher_eval aes128_encrypt_block_a)

text \<open>
  C9, as the code has it. For every content string without an unpaired
  surrogate, encryption under the process-wide key succeeds and decrypting
  its result returns the string.
\<close>

theorem decrypt_encrypt_well_formed:
  assumes "proper_cipher cr (hex_decode mm)" and "isWellFormed x"
  shows "\<exists>c. aesEncryptiv cr x mm = Inr c \<and> aesDecryptiv cr c mm = Inr x"
proof -
  from assms(1) have "\<forall>b. length b = 16 \<longrightarrow> length (block_encrypt cr (hex_decode mm) b) = 16"
    by (simp add: proper_cipher_def)
  from aesEncryptiv_cbc[OF this length_hex_decode_mm, of x]
  obtain c where c: "aesEncryptiv cr x mm = Inr c" by blast
  from aes_roundtrip_bytes[OF assms(1) length_hex_decode_mm c] utf8_roundtrip[OF assms(2)]
  have "aesDecryptiv cr c mm = Inr x" by simp
  with c show ?thesis by blast
qed

theorem decrypt_encrypt_well_formed_witness:
  "isWellFormed (js ''hi'')
   \<and> aesDecryptiv crypto0 (projr (aesEncryptiv crypto0 (js ''hi'') mm)) mm = Inr (js ''hi'')"
proof -
  have w: "isWellFormed (js ''hi'')"
    by (simp add: js_def is_high_surrogate_def is_low_surrogate_def)
  from decrypt_encrypt_well_formed[OF proper_cipher_crypto0 w] w show ?thesis
    by auto
qed

text \<open>
  C9, as stated, fails: the one-character string made of the unpaired
  surrogate \<open>U+D800\<close> is encoded as \<open>EF BF BD\<close> before encryption, and
  decrypting its ciphertext returns \<open>U+FFFD\<close>.
\<close>

theorem decrypt_encrypt_lone_surrogate_counterexample:
  "aesEncryptiv crypto0 [0xD800] mm = Inr (js ''vXCd7kj7Ia4QqE8Z6R1hXQ=='')
   \<and> aesDecryptiv crypto0 (js ''vXCd7kj7Ia4QqE8Z6R1hXQ=='') mm = Inr [0xFFFD]"
proof -
  have c: "aesEncryptiv crypto0 [0xD800] mm = Inr (js ''vXCd7kj7Ia4QqE8Z6R1hXQ=='')"
    by (simp add: string_eval utf8_eval cipher_eval aes128_encrypt_block_replacement)
  have "utf8_decode (utf8_encode [0xD800]) = [0xFFFD]"
    by (simp add: utf8_decode_encode is_high_surrogate_def utf8_start_def utf16_of_codepoint_def)
  with aes_roundtrip_bytes[OF proper_cipher_crypto0 length_hex_decode_mm c] c show ?thesis
    by simp
qed

text \<open>
  C10. Load decrypts exactly when the pathname ends with \<open>.mde\<close>: otherwise
  its result does not depend on the cipher, and when the decoded text
  decrypts, the content is the plaintext. Save encrypts exactly when
  \<open>path.extname\<close> of the pathname is \<open>.mde\<close>: otherwise the buffer written is
  the encoded content itself. The pathname \<open>/docs/.mde\<close> ends with \<open>.mde\<close>
  and has no extension, so load decrypts it and save does not encrypt it.
\<close>

theorem codec_selection:
  "(\<not> endsWith p (js ''.mde'') \<longrightarrow>
      loadMarkdownFile (env\<lparr>node_crypto := cr\<rparr>) p eol guess t = loadMarkdownFile env p eol guess t)
   \<and> (endsWith p (js ''.mde'') \<and> readFile (fs env) (path_resolve env p) = Inr buffer
        \<and> encodingExists env (encoding (guessEncoding env buffer guess))
        \<and> aesDecryptiv (node_crypto env)
             (iconv_decode env buffer (encoding (guessEncoding env buffer guess))) mm = Inr plain \<longrightarrow>
      map_sum id markdown (loadMarkdownFile env p eol guess t)
        = Inr (convertLineEndings plain (js ''lf'')))
   \<and> (extname p \<noteq> js ''.mde'' \<longrightarrow>
      writeMarkdownFile env p content opts =
        Inr \<lparr>wf_pathname = p,
             wf_buffer = iconv_encode env
               (if opt_adjustLineEndingOnSave opts
                then convertLineEndings content (opt_lineEnding opts) else content)
               (encoding (opt_encoding opts)) (isBom (opt_encoding opts)),
             wf_extension = (if extname p \<noteq> [] then extname p else js ''.md'')\<rparr>)
   \<and> (extname p = js ''.mde'' \<longrightarrow>
      writeMarkdownFile env p content opts =
        (case aesEncryptiv (node_crypto env)
                (if opt_adjustLineEndingOnSave opts
                 then convertLineEndings content (opt_lineEnding opts) else content) mm of
           Inl e \<Rightarrow> Inl e
         | Inr c \<Rightarrow>
             Inr \<lparr>wf_pathname = p,
                  wf_buffer = iconv_encode env c (encoding (opt_encoding opts)) (isBom (opt_encoding opts)),
                  wf_extension = js ''.mde''\<rparr>))
   \<and> endsWith (js ''/docs/.mde'') (js ''.mde'') \<and> extname (js ''/docs/.mde'') \<noteq> js ''.mde''"
proof (intro conjI impI)
  assume "\<not> endsWith p (js ''.mde'')"
  then show "loadMarkdownFile (env\<lparr>node_crypto := cr\<rparr>) p eol guess t = loadMarkdownFile env p eol guess t"
    by (simp add: loadMarkdownFile_def decrypt_on_load_def Let_def split: sum.splits)
next
  assume a: "endsWith p (js ''.mde'') \<and> readFile (fs env) (path_resolve env p) = Inr buffer
        \<and> encodingExists env (encoding (guessEncoding env buffer guess))
        \<and> aesDecryptiv (node_crypto env)
             (iconv_decode env buffer (encoding (guessEncoding env buffer guess))) mm = Inr plain"
  then have d: "decrypt_on_load (node_crypto env) p
                  (iconv_decode env buffer (encoding (guessEncoding env buffer guess))) = plain"
    by (simp add: decrypt_on_load_def)
  show "map_sum id markdown (loadMarkdownFile env p eol guess t) = Inr (convertLineEndings plain (js ''lf''))"
    using a d
    by (auto simp: loadMarkdownFile_def Let_def convertLineEndings_lf replace_LINE_ENDING_REG_id
          js_lf_neq_crlf js_lf_neq_crlf[symmetric] split: if_splits)
next
  assume "extname p \<noteq> js ''.mde''"
  then show "writeMarkdownFile env p content opts =
        Inr \<lparr>wf_pathname = p,
             wf_buffer = iconv_encode env
               (if opt_adjustLineEndingOnSave opts
                then convertLineEndings content (opt_lineEnding opts) else content)
               (encoding (opt_encoding opts)) (isBom (opt_encoding opts)),
             wf_extension = (if extname p \<noteq> [] then extname p else js ''.md'')\<rparr>"
    by (auto simp: writeMarkdownFile_def Let_def js_def)
next
  assume "extname p = js ''.mde''"
  then show "writeMarkdownFile env p content opts =
        (case aesEncryptiv (node_crypto env)
                (if opt_adjustLineEndingOnSave opts
                 then convertLineEndings content (opt_lineEnding opts) else content) mm of
           Inl e \<Rightarrow> Inl e
         | Inr c \<Rightarrow>
             Inr \<lparr>wf_pathname = p,
                  wf_buffer = iconv_encode env c (encoding (opt_encoding opts)) (isBom (opt_encoding opts)),
                  wf_extension = js ''.mde''\<rparr>)"
    by (auto simp: writeMarkdownFile_def Let_def js_def split: sum.splits)
next
  show "endsWith (js ''/docs/.mde'') (js ''.mde'')" by (simp add: string_eval)
next
  show "extname (js ''/docs/.mde'') \<noteq> js ''.mde''" by (simp add: string_eval)
qed

theorem codec_selection_witness:
  "map_sum id markdown
     (loadMarkdownFile
        (utf8_env crypto0 [js ''/docs/.mde'' \<mapsto> File (utf8_encode (js ''/I1C3/CrI5qPRFGk3FeBSw==''))])
        (js ''/docs/.mde'') (js ''lf'') True 2) = Inr (js ''hi'')
   \<and> writeMarkdownFile
        (utf8_env crypto0 [js ''/docs/.mde'' \<mapsto> File (utf8_encode (js ''/I1C3/CrI5qPRFGk3FeBSw==''))])
        (js ''/docs/.mde'') (js ''hi'')
        \<lparr>opt_adjustLineEndingOnSave = False, opt_lineEnding = js ''lf'',
         opt_encoding = \<lparr>encoding = js ''utf8'', isBom = False\<rparr>\<rparr>
     = Inr \<lparr>wf_pathname = js ''/docs/.mde'', wf_buffer = [0x68, 0x69], wf_extension = js ''.md''\<rparr>"
proof -
  let ?buf = "utf8_encode (js ''/I1C3/CrI5qPRFGk3FeBSw=='')"
  let ?env = "utf8_env crypto0 [js ''/docs/.mde'' \<mapsto> File ?buf]"
  let ?p = "js ''/docs/.mde''"
  let ?opts = "\<lparr>opt_adjustLineEndingOnSave = False, opt_lineEnding = js ''lf'',
         opt_encoding = \<lparr>encoding = js ''utf8'', isBom = False\<rparr>\<rparr>"
  note c = codec_selection[where p = ?p and env = ?env and eol = "js ''lf''" and guess = True and t = 2
                   and buffer = ?buf and plain = "js ''hi''" and content = "js ''hi''" and opts = ?opts]
  have e: "endsWith ?p (js ''.mde'')" and x: "extname ?p \<noteq> js ''.mde''"
    by (simp_all add: string_eval)
  have r: "readFile (fs ?env) (path_resolve ?env ?p) = Inr ?buf"
    by (simp add: utf8_env_def readFile_def)
  have k: "encodingExists ?env (encoding (guessEncoding ?env ?buf True))"
    by (simp add: utf8_env_def)
  have d: "aesDecryptiv (node_crypto ?env)
             (iconv_decode ?env ?buf (encoding (guessEncoding ?env ?buf True))) mm = Inr (js ''hi'')"
    by (simp add: utf8_env_def string_eval utf8_eval cipher_eval aes128_decrypt_block_hi)
  have l: "map_sum id markdown (loadMarkdownFile ?env ?p (js ''lf'') True 2)
             = Inr (convertLineEndings (js ''hi'') (js ''lf''))"
    using c e r k d by blast
  have w: "writeMarkdownFile ?env ?p (js ''hi'') ?opts =
        Inr \<lparr>wf_pathname = ?p,
             wf_buffer = iconv_encode ?env
               (if opt_adjustLineEndingOnSave ?opts
                then convertLineEndings (js ''hi'') (opt_lineEnding ?opts) else js ''hi'')
               (encoding (opt_encoding ?opts)) (isBom (opt_encoding ?opts)),
             wf_extension = (if extname ?p \<noteq> [] then extname ?p else js ''.md'')\<rparr>"
    using c x by blast
  have l': "convertLineEndings (js ''hi'') (js ''lf'') = js ''hi''"
    by (simp add: convertLineEndings_def getLineEnding_def js_def)
  have w': "iconv_encode ?env (js ''hi'') (js ''utf8'') False = [0x68, 0x69]"
    by (simp add: utf8_env_def string_eval utf8_eval)
  have x': "extname ?p = []" by (simp add: string_eval)
  show ?thesis
    unfolding l w by (simp add: l' w' x')
qed

end
